theory Spec2Isabelle
  imports Main "HOL-Library.AList"
begin

section \<open>Type nodes supplied by the compiler front end\<close>

text \<open>
  The analyzer reads type annotations as syntax tree objects. It looks at the name of the
  object's constructor (\<open>NodeObject\<close> or \<open>TokenObject\<close>), at its \<open>kind\<close>, and at the children
  \<open>elementType\<close>, \<open>typeName.text\<close>, \<open>typeArguments\<close> and \<open>types\<close>. The value of a literal
  type is what the type checker resolves for the node (\<open>None\<close> when it resolves no value).
\<close>

datatype syntaxKind =
    StringKeyword | NumberKeyword | BooleanKeyword | AnyKeyword | NullKeyword
  | UndefinedKeyword | SymbolKeyword | ObjectKeyword | FunctionTypeToken
  | OtherKind nat

datatype literalValue = StringValue string | NumberValue int

datatype typeNode =
    TokenObject syntaxKind
  | ArrayType typeNode
  | TypeReference string "typeNode list option"
  | FunctionType
  | TypeQuery
  | UnionType "typeNode list"
  | LiteralType "literalValue option"
  | ParenthesizedType
  | OtherNode nat
  | OtherObject string

section \<open>Errors\<close>

text \<open>
  The source throws strings; each distinct message is a constructor here. \<open>TypeError\<close>
  stands for the runtime's own exception on reading a property of \<open>undefined\<close> or \<open>null\<close>.
\<close>

datatype error =
    UnknownTokenType syntaxKind
  | UnknownNodeType nat
  | UnknownObject string
  | UnknownLiteral
  | UndefinedType string
  | MultipleReferences string
  | NoRouterDefinitions
  | UnknownArgument nat
  | UnknownDecorated nat
  | InvalidJSDoc
  | TypeError

section \<open>Schema fragments\<close>

text \<open>
  A schema fragment is a JavaScript object with the keys \<open>type\<close>, \<open>items\<close>, \<open>oneOf\<close>,
  \<open>format\<close>, \<open>$ref\<close>, \<open>properties\<close>, \<open>required\<close>, \<open>description\<close>, \<open>minimum\<close> and
  \<open>maximum\<close>; a key that is absent (or holds \<open>null\<close>/\<open>undefined\<close>) is \<open>None\<close>. Numbers
  written by a value tag come from \<open>parseInt\<close>, which yields an integer or \<open>NaN\<close>.
\<close>

datatype jsnum = Num int | NaN

datatype schema = Schema
  (stype: "string option")
  (sitems: "schema option")
  (oneOf: "schema list option")
  (format: "literalValue option")
  (ref: "string option")
  (properties: "(string \<times> schema) list option")
  (required: "string list option")
  (description: "string option")
  (minimum: "jsnum option")
  (maximum: "jsnum option")

definition emptySchema :: schema where
  "emptySchema = Schema None None None None None None None None None None"

definition typeSchema :: "string \<Rightarrow> schema" where
  "typeSchema t = Schema (Some t) None None None None None None None None None"

definition set_type :: "string \<Rightarrow> schema \<Rightarrow> schema" where
  "set_type v s = (case s of Schema t i u f r p q d mn mx \<Rightarrow> Schema (Some v) i u f r p q d mn mx)"

definition set_oneOf :: "schema list \<Rightarrow> schema \<Rightarrow> schema" where
  "set_oneOf v s = (case s of Schema t i u f r p q d mn mx \<Rightarrow> Schema t i (Some v) f r p q d mn mx)"

definition set_description :: "string \<Rightarrow> schema \<Rightarrow> schema" where
  "set_description v s = (case s of Schema t i u f r p q d mn mx \<Rightarrow> Schema t i u f r p q (Some v) mn mx)"

definition set_minimum :: "jsnum \<Rightarrow> schema \<Rightarrow> schema" where
  "set_minimum v s = (case s of Schema t i u f r p q d mn mx \<Rightarrow> Schema t i u f r p q d (Some v) mx)"

definition set_maximum :: "jsnum \<Rightarrow> schema \<Rightarrow> schema" where
  "set_maximum v s = (case s of Schema t i u f r p q d mn mx \<Rightarrow> Schema t i u f r p q d mn (Some v))"

section \<open>Translating keyword tokens\<close>

fun tokenObjectToJSON :: "syntaxKind \<Rightarrow> error + schema option" where
  "tokenObjectToJSON StringKeyword = Inr (Some (typeSchema ''string''))"
| "tokenObjectToJSON NumberKeyword = Inr (Some (typeSchema ''number''))"
| "tokenObjectToJSON BooleanKeyword = Inr (Some (typeSchema ''boolean''))"
| "tokenObjectToJSON AnyKeyword =
     Inr (Some (set_oneOf [typeSchema ''object'', typeSchema ''number'', typeSchema ''string''] emptySchema))"
| "tokenObjectToJSON NullKeyword = Inr (Some (typeSchema ''null''))"
| "tokenObjectToJSON UndefinedKeyword = Inr None"
| "tokenObjectToJSON SymbolKeyword = Inr None"
| "tokenObjectToJSON ObjectKeyword = Inr (Some (typeSchema ''object''))"
| "tokenObjectToJSON FunctionTypeToken = Inr None"
| "tokenObjectToJSON (OtherKind k) = Inl (UnknownTokenType (OtherKind k))"

section \<open>Doc-comment tags\<close>

text \<open>
  A tag as the doc-comment parser returns it: \<open>title\<close>, \<open>description\<close> (possibly \<open>null\<close>)
  and, for a \<open>@type\<close> tag, the parsed type expression, of which only the node type
  \<open>NameExpression\<close> and its \<open>name\<close> are read. \<open>parseInt\<close> is the runtime's builtin and is
  a parameter of the model.
\<close>

datatype tagType = NameExpression string | OtherExpression

record tag =
  title :: string
  tdescription :: "string option"
  ttype :: "tagType option"

datatype valueTitle = Minimum | Maximum

definition hasType :: "schema \<Rightarrow> bool" where
  "hasType s = (stype s \<noteq> None \<and> stype s \<noteq> Some ''null'')"

definition setValue :: "valueTitle \<Rightarrow> jsnum \<Rightarrow> schema \<Rightarrow> schema" where
  "setValue t v s = (case t of Minimum \<Rightarrow> set_minimum v s | Maximum \<Rightarrow> set_maximum v s)"

definition applyValueTag :: "schema \<Rightarrow> valueTitle \<Rightarrow> jsnum \<Rightarrow> schema" where
  "applyValueTag schemaObject t v =
     (if hasType schemaObject then setValue t v schemaObject
      else case oneOf schemaObject of
             None \<Rightarrow> schemaObject
           | Some xs \<Rightarrow> set_oneOf (map (\<lambda>x. if hasType x then setValue t v x else x) xs) schemaObject)"

definition applyTypenameTag :: "schema \<Rightarrow> string \<Rightarrow> schema" where
  "applyTypenameTag schemaObject name =
     (if hasType schemaObject then set_type name schemaObject
      else case oneOf schemaObject of
             None \<Rightarrow> schemaObject
           | Some xs \<Rightarrow> set_oneOf (map (\<lambda>x. if hasType x then set_type name x else x) xs) schemaObject)"

definition applyTag :: "(string option \<Rightarrow> jsnum) \<Rightarrow> schema \<Rightarrow> tag option \<Rightarrow> error + schema" where
  "applyTag parseInt schemaObject tg =
     (case tg of
        None \<Rightarrow> Inr schemaObject
      | Some t \<Rightarrow>
          if title t = ''minimum'' then Inr (applyValueTag schemaObject Minimum (parseInt (tdescription t)))
          else if title t = ''maximum'' then Inr (applyValueTag schemaObject Maximum (parseInt (tdescription t)))
          else if title t = ''type'' then
            (case ttype t of
               None \<Rightarrow> Inl TypeError
             | Some (NameExpression n) \<Rightarrow> Inr (applyTypenameTag schemaObject n)
             | Some OtherExpression \<Rightarrow> Inr schemaObject)
          else Inr schemaObject)"

text \<open>Applying one tag after another; an exception of the first ends the sequence.\<close>

definition applyTwo :: "(string option \<Rightarrow> jsnum) \<Rightarrow> schema \<Rightarrow> tag option \<Rightarrow> tag option \<Rightarrow> error + schema" where
  "applyTwo parseInt schemaObject t1 t2 =
     (case applyTag parseInt schemaObject t1 of
        Inl e \<Rightarrow> Inl e
      | Inr s' \<Rightarrow> applyTag parseInt s' t2)"

text \<open>The tags of all doc-comment blocks of a node, applied in order (the two nested loops
  of the translator).\<close>

fun applyTags :: "(string option \<Rightarrow> jsnum) \<Rightarrow> schema \<Rightarrow> tag option list \<Rightarrow> error + schema" where
  "applyTags parseInt res [] = Inr res"
| "applyTags parseInt res (t # ts) =
     (case applyTag parseInt res t of
        Inl e \<Rightarrow> Inl e
      | Inr res' \<Rightarrow> applyTags parseInt res' ts)"

section \<open>The symbol table\<close>

text \<open>
  The global \<open>symtab\<close> is an object used as a dictionary from class and interface names to
  entries; it is passed explicitly here, as an association list in insertion order
  (the order in which \<open>for ... in\<close> enumerates the keys). Reading \<open>symtab[k]\<close> is
  \<open>map_of\<close>, writing \<open>symtab[k] = e\<close> is \<open>AList.update\<close>. An entry is an object whose
  fields depend on who created it: a key that the creator did not set is \<open>None\<close>
  (\<open>relevant\<close>: \<open>False\<close>; \<open>members\<close>: the empty list, over which \<open>for ... in\<close> does not
  iterate either). The keys are the names of classes and interfaces; the properties that
  every object inherits (such as \<open>toString\<close>) are not modelled as entries.
\<close>

datatype jsval = StringVal string | NumberVal string

record decoratedFunction =
  className :: string
  comment :: "string option"
  decorates :: string
  decoratorArgs :: "jsval list"
  methodParameters :: "(string \<times> typeNode) list"
  returnType :: "typeNode option"
  ftype :: string

record member =
  desc :: schema
  mtype :: typeNode
  optional :: bool

datatype entryType = TypeEntry | ControllerEntry | RouterEntry

record entry =
  etype :: entryType
  ename :: "string option"
  efileName :: "string option"
  ecomment :: "string option"
  emethods :: "decoratedFunction list option"
  eargs :: "jsval list option"
  members :: "(string \<times> member) list"
  relevant :: bool
  def :: "schema option"

type_synonym symtab = "(string \<times> entry) list"

section \<open>Translating type nodes\<close>

record options =
  expandRefs :: bool
  docRoot :: "string option"

definition refSchema :: "string \<Rightarrow> schema" where
  "refSchema r = Schema None None None None (Some r) None None None None None"

definition arraySchema :: "schema option \<Rightarrow> schema" where
  "arraySchema i = Schema (Some ''array'') i None None None None None None None None"

definition maptypeDescName :: "string \<Rightarrow> string \<Rightarrow> schema option" where
  "maptypeDescName root name =
     (if name = ''Object'' then Some (typeSchema ''object'')
      else if name = ''String'' then Some (typeSchema ''string'')
      else if name = ''Number'' then Some (typeSchema ''number'')
      else if name = ''Boolean'' then Some (typeSchema ''boolean'')
      else if name = ''Function'' then None
      else Some (refSchema (root @ ''/'' @ name)))"

definition typeofValue :: "literalValue \<Rightarrow> string" where
  "typeofValue v = (case v of StringValue _ \<Rightarrow> ''string'' | NumberValue _ \<Rightarrow> ''number'')"

definition literalToJSON :: "literalValue option \<Rightarrow> error + schema" where
  "literalToJSON value =
     (case value of
        Some v \<Rightarrow> Inr (Schema (Some (typeofValue v))
                        None (Some [Schema None None None (Some v) None None None None None None])
                        None None None None None None None)
      | None \<Rightarrow> Inl UnknownLiteral)"

text \<open>
  The two collaborators the translator calls: \<open>parseInt\<close>, and the type checker, of which
  the translator asks the documentation comment of the symbol of a node's type
  (\<open>None\<close> when the type has no symbol).
\<close>

record collaborators =
  parseInt :: "string option \<Rightarrow> jsnum"
  symbolDoc :: "typeNode \<Rightarrow> string option"

definition theDocRoot :: "options option \<Rightarrow> string" where
  "theDocRoot opts =
     (case opts of
        None \<Rightarrow> ''#/definitions''
      | Some o1 \<Rightarrow> (case docRoot o1 of None \<Rightarrow> ''#/definitions'' | Some d \<Rightarrow> d))"

definition wantsExpand :: "options option \<Rightarrow> bool" where
  "wantsExpand opts = (case opts of None \<Rightarrow> False | Some o1 \<Rightarrow> expandRefs o1)"

text \<open>
  The tail of \<open>typeToJSON\<close>: a result that is not \<open>null\<close> gets every tag of every
  doc-comment block applied, and then the description of the type's symbol. (When the
  result is the \<open>def\<close> object of a table entry, the source writes into that object; the
  model returns the value.)
\<close>

definition decorate :: "collaborators \<Rightarrow> typeNode \<Rightarrow> tag option list list \<Rightarrow> schema option \<Rightarrow> error + schema option" where
  "decorate c typeDesc jsDoc res =
     (case res of
        None \<Rightarrow> Inr None
      | Some r \<Rightarrow>
          (case applyTags (parseInt c) r (concat jsDoc) of
             Inl e \<Rightarrow> Inl e
           | Inr r' \<Rightarrow> Inr (Some (case symbolDoc c typeDesc of
                                     None \<Rightarrow> r'
                                   | Some d \<Rightarrow> set_description d r'))))"

fun typeToJSON :: "collaborators \<Rightarrow> symtab \<Rightarrow> typeNode \<Rightarrow> tag option list list \<Rightarrow> options option \<Rightarrow> error + schema option"
and unionToJSON :: "collaborators \<Rightarrow> symtab \<Rightarrow> typeNode list \<Rightarrow> options option \<Rightarrow> error + schema list"
where
  "typeToJSON c symtab (ArrayType elementType) jsDoc opts =
     (case typeToJSON c symtab elementType jsDoc opts of
        Inl e \<Rightarrow> Inl e
      | Inr i \<Rightarrow> decorate c (ArrayType elementType) jsDoc (Some (arraySchema i)))"
| "typeToJSON c symtab (TypeReference typeName typeArguments) jsDoc opts =
     (if typeName = ''Array'' then
        (case typeArguments of
           None \<Rightarrow> Inl TypeError
         | Some [] \<Rightarrow> Inl TypeError
         | Some (arg # _) \<Rightarrow>
             (case typeToJSON c symtab arg jsDoc opts of
                Inl e \<Rightarrow> Inl e
              | Inr i \<Rightarrow> decorate c (TypeReference typeName typeArguments) jsDoc (Some (arraySchema i))))
      else
        (case maptypeDescName (theDocRoot opts) typeName of
           None \<Rightarrow> Inr None
         | Some res \<Rightarrow>
             if ref res \<noteq> None \<and> wantsExpand opts then
               (case map_of symtab typeName of
                  None \<Rightarrow> Inl (UndefinedType typeName)
                | Some e \<Rightarrow> decorate c (TypeReference typeName typeArguments) jsDoc (def e))
             else decorate c (TypeReference typeName typeArguments) jsDoc (Some res)))"
| "typeToJSON c symtab FunctionType jsDoc opts = Inr None"
| "typeToJSON c symtab TypeQuery jsDoc opts = Inr None"
| "typeToJSON c symtab (UnionType types) jsDoc opts =
     (case unionToJSON c symtab types None of
        Inl e \<Rightarrow> Inl e
      | Inr xs \<Rightarrow> decorate c (UnionType types) jsDoc (Some (set_oneOf xs emptySchema)))"
| "typeToJSON c symtab (LiteralType value) jsDoc opts =
     (case literalToJSON value of
        Inl e \<Rightarrow> Inl e
      | Inr res \<Rightarrow> decorate c (LiteralType value) jsDoc (Some res))"
| "typeToJSON c symtab ParenthesizedType jsDoc opts = Inr None"
| "typeToJSON c symtab (OtherNode k) jsDoc opts = Inl (UnknownNodeType k)"
| "typeToJSON c symtab (TokenObject k) jsDoc opts =
     (case tokenObjectToJSON k of
        Inl e \<Rightarrow> Inl e
      | Inr res \<Rightarrow> decorate c (TokenObject k) jsDoc res)"
| "typeToJSON c symtab (OtherObject n) jsDoc opts = Inl (UnknownObject n)"
| "unionToJSON c symtab [] opts = Inr []"
| "unionToJSON c symtab (t # ts) opts =
     (case typeToJSON c symtab t [] opts of
        Inl e \<Rightarrow> Inl e
      | Inr unionElement \<Rightarrow>
          (case unionToJSON c symtab ts opts of
             Inl e \<Rightarrow> Inl e
           | Inr rest \<Rightarrow> Inr (case unionElement of None \<Rightarrow> rest | Some x \<Rightarrow> x # rest)))"

section \<open>Marking types as relevant\<close>

text \<open>
  \<open>markAsRelevant\<close> recurses into element types, type arguments, the declared types of
  the members of the entry it has just marked, and union members (through
  \<open>markUnionAsRelevant\<close>, which is the loop \<open>markEach\<close>). Nothing bounds this recursion in
  the source, so the model takes the depth of calls it may use as its first argument and
  returns \<open>None\<close> when that depth does not suffice: a call that returns \<open>None\<close> for every
  depth is a call that never returns. The parameters \<open>jsDoc\<close> and \<open>options\<close> of the source
  are passed along and never read; they are left out. The member list is read when the
  loop over it starts; marking never changes it.
\<close>

fun markAsRelevant :: "nat \<Rightarrow> symtab \<Rightarrow> typeNode \<Rightarrow> (error + symtab) option"
and markEach :: "nat \<Rightarrow> symtab \<Rightarrow> typeNode list \<Rightarrow> (error + symtab) option"
where
  "markAsRelevant 0 symtab typeDesc = None"
| "markAsRelevant (Suc n) symtab (ArrayType elementType) = markAsRelevant n symtab elementType"
| "markAsRelevant (Suc n) symtab (TypeReference typeName args) =
     (case map_of symtab typeName of
        None \<Rightarrow> Some (Inl (UndefinedType typeName))
      | Some e \<Rightarrow>
          (case markEach n (AList.update typeName (e\<lparr>relevant := True\<rparr>) symtab)
                  (case args of None \<Rightarrow> [] | Some as \<Rightarrow> as) of
             None \<Rightarrow> None
           | Some (Inl err) \<Rightarrow> Some (Inl err)
           | Some (Inr symtab') \<Rightarrow>
               (case map_of symtab' typeName of
                  None \<Rightarrow> Some (Inl TypeError)
                | Some e' \<Rightarrow> markEach n symtab' (map (\<lambda>m. mtype (snd m)) (members e')))))"
| "markAsRelevant (Suc n) symtab (UnionType types) = markEach n symtab types"
| "markAsRelevant (Suc n) symtab typeDesc = Some (Inr symtab)"
| "markEach n symtab [] = Some (Inr symtab)"
| "markEach n symtab (t # ts) =
     (case markAsRelevant n symtab t of
        None \<Rightarrow> None
      | Some (Inl err) \<Rightarrow> Some (Inl err)
      | Some (Inr symtab') \<Rightarrow> markEach n symtab' ts)"

section \<open>The parameter list of a method\<close>

record plistSchema =
  ptitle :: string
  pdescription :: string
  ptype :: string
  pproperties :: "(string \<times> schema) list"
  prequired :: "string list option"

record plist =
  pclassName :: string
  pmethod :: string
  parameterNames :: "string list"
  pschema :: plistSchema

text \<open>The first loop of \<open>parameterListToJSON\<close>: a parameter whose translation is \<open>null\<close>
  is neither recorded nor marked.\<close>

fun parameterLoop :: "collaborators \<Rightarrow> nat \<Rightarrow> symtab \<Rightarrow> (string \<times> typeNode) list \<Rightarrow> options option
    \<Rightarrow> (string \<times> schema) list \<Rightarrow> (error + ((string \<times> schema) list \<times> symtab)) option" where
  "parameterLoop c n symtab [] opts props = Some (Inr (props, symtab))"
| "parameterLoop c n symtab (p # ps) opts props =
     (case typeToJSON c symtab (snd p) [] opts of
        Inl e \<Rightarrow> Some (Inl e)
      | Inr None \<Rightarrow> parameterLoop c n symtab ps opts props
      | Inr (Some jsonValue) \<Rightarrow>
          (case markAsRelevant n symtab (snd p) of
             None \<Rightarrow> None
           | Some (Inl e) \<Rightarrow> Some (Inl e)
           | Some (Inr symtab') \<Rightarrow>
               parameterLoop c n symtab' ps opts (AList.update (fst p) jsonValue props)))"

text \<open>\<open>markAsRelevant(method.returnType)\<close> reads \<open>typeDesc.constructor\<close> first, which the
  runtime refuses when the method declares no return type.\<close>

definition parameterListToJSON :: "collaborators \<Rightarrow> nat \<Rightarrow> symtab \<Rightarrow> decoratedFunction \<Rightarrow> options option
    \<Rightarrow> (error + (plist \<times> symtab)) option" where
  "parameterListToJSON c n symtab method opts =
     (case parameterLoop c n symtab (methodParameters method) opts [] of
        None \<Rightarrow> None
      | Some (Inl e) \<Rightarrow> Some (Inl e)
      | Some (Inr (props, symtab1)) \<Rightarrow>
          (case returnType method of
             None \<Rightarrow> Some (Inl TypeError)
           | Some rt \<Rightarrow>
               (case markAsRelevant n symtab1 rt of
                  None \<Rightarrow> None
                | Some (Inl e) \<Rightarrow> Some (Inl e)
                | Some (Inr symtab2) \<Rightarrow>
                    Some (Inr (\<lparr> pclassName = className method,
                                 pmethod = decorates method,
                                 parameterNames = map fst (methodParameters method),
                                 pschema = \<lparr> ptitle = decorates method @ '' plist'',
                                             pdescription = ''Parameter list for '' @ decorates method,
                                             ptype = ''object'',
                                             pproperties = props,
                                             prequired = None \<rparr> \<rparr>, symtab2)))))"

section \<open>Connecting methods to controllers\<close>

text \<open>\<open>className\<close> is always a string here, so the source's test that it is not \<open>null\<close>
  holds. An entry that has no \<open>methods\<close> array (one that is not a controller or a router)
  makes \<open>controller.methods.push\<close> fail.\<close>

fun connectMethods :: "symtab \<Rightarrow> decoratedFunction list \<Rightarrow> error + symtab" where
  "connectMethods symtab [] = Inr symtab"
| "connectMethods symtab (ep # eps) =
     (case map_of symtab (className ep) of
        None \<Rightarrow> connectMethods symtab eps
      | Some controller \<Rightarrow>
          (case emethods controller of
             None \<Rightarrow> Inl TypeError
           | Some ms \<Rightarrow>
               connectMethods (AList.update (className ep) (controller\<lparr>emethods := Some (ms @ [ep])\<rparr>) symtab) eps))"

section \<open>From the symbol table to definitions, controllers and routers\<close>

definition requiredKeys :: "(string \<times> member) list \<Rightarrow> string list" where
  "requiredKeys ms = map fst (filter (\<lambda>m. \<not> optional (snd m)) ms)"

text \<open>The object that \<open>symtabToSchemaDefinitions\<close> builds for one relevant type entry.\<close>

definition definitionOf :: "entry \<Rightarrow> schema" where
  "definitionOf e =
     Schema (Some ''object'') None None None None
       (Some (map (\<lambda>m. (fst m, desc (snd m))) (members e)))
       (if requiredKeys (members e) \<noteq> [] then Some (requiredKeys (members e)) else None)
       (ecomment e) None None"

fun definitionsLoop :: "string list \<Rightarrow> symtab \<Rightarrow> (string \<times> schema) list \<Rightarrow> (string \<times> schema) list \<times> symtab" where
  "definitionsLoop [] symtab res = (res, symtab)"
| "definitionsLoop (ikey # ks) symtab res =
     (case map_of symtab ikey of
        None \<Rightarrow> definitionsLoop ks symtab res
      | Some e \<Rightarrow>
          if etype e = TypeEntry \<and> relevant e then
            definitionsLoop ks (AList.update ikey (e\<lparr>def := Some (definitionOf e)\<rparr>) symtab)
              (AList.update ikey (definitionOf e) res)
          else definitionsLoop ks symtab res)"

definition symtabToSchemaDefinitions :: "symtab \<Rightarrow> (string \<times> schema) list \<times> symtab" where
  "symtabToSchemaDefinitions symtab = definitionsLoop (map fst symtab) symtab []"

text \<open>
  \<open>symtabToControllerDefinitions\<close> and \<open>symtabToRouterDefinitions\<close> are the same loop, for
  the entries of type \<open>controller\<close> and \<open>router\<close>. The path is the first decorator argument
  when there is one, the class name otherwise.
\<close>

record controller =
  args :: "jsval list option"
  cclassName :: string
  fileName :: "string option"
  ccomment :: "string option"
  methods :: "decoratedFunction list option"
  path :: jsval

fun classDefinitionsLoop :: "entryType \<Rightarrow> string list \<Rightarrow> symtab \<Rightarrow> error + controller list" where
  "classDefinitionsLoop k [] symtab = Inr []"
| "classDefinitionsLoop k (ikey # ks) symtab =
     (case map_of symtab ikey of
        None \<Rightarrow> classDefinitionsLoop k ks symtab
      | Some e \<Rightarrow>
          if etype e = k then
            (case ename e of
               None \<Rightarrow> Inl TypeError
             | Some cn \<Rightarrow>
                 (case map_of symtab cn of
                    None \<Rightarrow> Inl TypeError
                  | Some e' \<Rightarrow>
                      (case classDefinitionsLoop k ks symtab of
                         Inl err \<Rightarrow> Inl err
                       | Inr res \<Rightarrow>
                           Inr (\<lparr> args = eargs e, cclassName = cn, fileName = efileName e',
                                  ccomment = ecomment e', methods = emethods e,
                                  path = (case eargs e of Some (a # _) \<Rightarrow> a | _ \<Rightarrow> StringVal cn) \<rparr>
                                # res))))
          else classDefinitionsLoop k ks symtab)"

definition symtabToControllerDefinitions :: "symtab \<Rightarrow> error + controller list" where
  "symtabToControllerDefinitions symtab = classDefinitionsLoop ControllerEntry (map fst symtab) symtab"

definition symtabToRouterDefinitions :: "symtab \<Rightarrow> error + controller list" where
  "symtabToRouterDefinitions symtab = classDefinitionsLoop RouterEntry (map fst symtab) symtab"

section \<open>Registering controllers and routers\<close>

definition addController :: "symtab \<Rightarrow> string \<Rightarrow> string option \<Rightarrow> string option \<Rightarrow> error + symtab" where
  "addController symtab cn fn cm =
     (if map_of symtab cn \<noteq> None then Inl (MultipleReferences cn)
      else Inr (AList.update cn
                  \<lparr> etype = ControllerEntry, ename = Some cn, efileName = fn, ecomment = cm,
                    emethods = Some [], eargs = Some [], members = [], relevant = False, def = None \<rparr>
                  symtab))"

definition addRouter :: "symtab \<Rightarrow> string \<Rightarrow> string option \<Rightarrow> string option \<Rightarrow> error + symtab" where
  "addRouter symtab cn fn cm =
     Inr (AList.update cn
            \<lparr> etype = RouterEntry, ename = Some cn, efileName = fn, ecomment = cm,
              emethods = Some [], eargs = Some [], members = [], relevant = False, def = None \<rparr>
            symtab)"

section \<open>The paths of the OpenAPI document\<close>

record parameterDoc =
  pname :: string
  pin :: string
  pschemaDoc :: "schema option"
  prequiredDoc :: bool

record response =
  rdescription :: string
  rschema :: "schema option"

record operation =
  tags :: "string list"
  operationId :: string
  parameters :: "parameterDoc list"
  responses :: "(string \<times> response) list"
  odescription :: "string option"

type_synonym paths = "(string \<times> (string \<times> operation) list) list"

text \<open>The source strips a leading \<open>/\<close> and a trailing \<open>.\<close> from a path in three places.\<close>

definition stripPath :: "string \<Rightarrow> string" where
  "stripPath p =
     (let p1 = (case p of [] \<Rightarrow> p | ch # r \<Rightarrow> if ch = CHR ''/'' then r else p)
      in if p1 \<noteq> [] \<and> last p1 = CHR ''.'' then butlast p1 else p1)"

definition strippedPath :: "jsval \<Rightarrow> error + string" where
  "strippedPath v = (case v of StringVal p \<Rightarrow> Inr (stripPath p) | NumberVal _ \<Rightarrow> Inl TypeError)"

definition swaggerOptions :: "options option" where
  "swaggerOptions = Some \<lparr> expandRefs = True, docRoot = Some ''#/components/schemas'' \<rparr>"

text \<open>The name the source compares with \<open>Promise\<close>: the text of \<open>returnType.typeName\<close>,
  which only a type reference has.\<close>

definition returnTypename :: "typeNode \<Rightarrow> string option" where
  "returnTypename t = (case t of TypeReference n _ \<Rightarrow> Some n | _ \<Rightarrow> None)"

definition returnTypedef :: "collaborators \<Rightarrow> symtab \<Rightarrow> typeNode option \<Rightarrow> error + schema option" where
  "returnTypedef c symtab rt =
     (case rt of
        None \<Rightarrow> Inr None
      | Some t \<Rightarrow>
          (case typeToJSON c symtab t [] None of
             Inl e \<Rightarrow> Inl e
           | Inr d \<Rightarrow>
               if returnTypename t = Some ''Promise'' then
                 (case t of
                    TypeReference _ (Some (promiseArg # _)) \<Rightarrow> typeToJSON c symtab promiseArg [] swaggerOptions
                  | _ \<Rightarrow> Inl TypeError)
               else Inr d))"

definition responsesOf :: "schema option \<Rightarrow> (string \<times> response) list" where
  "responsesOf d =
     (case d of
        Some s \<Rightarrow> [(''200'', \<lparr> rdescription = ''Successful response'', rschema = Some s \<rparr>)]
      | None \<Rightarrow> [(''204'', \<lparr> rdescription = ''Successful response'', rschema = None \<rparr>)])"

definition inputFormOf :: "string \<Rightarrow> string" where
  "inputFormOf methodType =
     (if methodType = ''post'' \<or> methodType = ''all'' \<or> methodType = ''delete'' then ''body'' else ''query'')"

definition expandedParameters :: "string \<Rightarrow> schema \<Rightarrow> parameterDoc list" where
  "expandedParameters inputForm parameterTypedef =
     map (\<lambda>kv. \<lparr> pname = fst kv, pin = inputForm, pschemaDoc = Some (snd kv),
                 prequiredDoc = (case required parameterTypedef of
                                   None \<Rightarrow> False
                                 | Some rs \<Rightarrow> fst kv \<in> set rs) \<rparr>)
         (case properties parameterTypedef of None \<Rightarrow> [] | Some ps \<Rightarrow> ps)"

fun swaggerParameters :: "collaborators \<Rightarrow> symtab \<Rightarrow> string \<Rightarrow> (string \<times> typeNode) list \<Rightarrow> error + parameterDoc list" where
  "swaggerParameters c symtab inputForm [] = Inr []"
| "swaggerParameters c symtab inputForm (parameter # ps) =
     (case typeToJSON c symtab (snd parameter) [] swaggerOptions of
        Inl e \<Rightarrow> Inl e
      | Inr parameterTypedef \<Rightarrow>
          (case swaggerParameters c symtab inputForm ps of
             Inl e \<Rightarrow> Inl e
           | Inr rest \<Rightarrow>
               Inr ((case parameterTypedef of
                       None \<Rightarrow> [\<lparr> pname = fst parameter, pin = inputForm, pschemaDoc = None, prequiredDoc = True \<rparr>]
                     | Some d \<Rightarrow>
                         if stype d = Some ''object'' then expandedParameters inputForm d
                         else [\<lparr> pname = fst parameter, pin = inputForm, pschemaDoc = Some d, prequiredDoc = True \<rparr>])
                    @ rest)))"

text \<open>The loop over the methods of one controller; \<open>p1\<close> is the controller's stripped path.\<close>

fun methodPaths :: "collaborators \<Rightarrow> symtab \<Rightarrow> string \<Rightarrow> string \<Rightarrow> decoratedFunction list \<Rightarrow> paths \<Rightarrow> error + paths" where
  "methodPaths c symtab prefix p1 [] ps = Inr ps"
| "methodPaths c symtab prefix p1 (m # ms) ps =
     (case returnTypedef c symtab (returnType m) of
        Inl e \<Rightarrow> Inl e
      | Inr d \<Rightarrow>
          (case swaggerParameters c symtab (inputFormOf (ftype m)) (methodParameters m) of
             Inl e \<Rightarrow> Inl e
           | Inr params \<Rightarrow>
               methodPaths c symtab prefix p1 ms
                 (AList.update (''/'' @ prefix @ ''/'' @ p1 @ ''/'' @ decorates m)
                    [(ftype m,
                      \<lparr> tags = [p1], operationId = decorates m, parameters = params,
                        responses = responsesOf d,
                        odescription = (case comment m of
                                          None \<Rightarrow> None
                                        | Some cm \<Rightarrow> if cm \<noteq> [] then Some cm else None) \<rparr>)]
                    ps)))"

fun controllerPaths :: "collaborators \<Rightarrow> symtab \<Rightarrow> string \<Rightarrow> controller list \<Rightarrow> paths \<Rightarrow> error + paths" where
  "controllerPaths c symtab prefix [] ps = Inr ps"
| "controllerPaths c symtab prefix (ctl # ctls) ps =
     (case methods ctl of
        None \<Rightarrow> Inl TypeError
      | Some ms \<Rightarrow>
          (case strippedPath (path ctl) of
             Inl e \<Rightarrow> Inl e
           | Inr p1 \<Rightarrow>
               (case methodPaths c symtab prefix p1 ms ps of
                  Inl e \<Rightarrow> Inl e
                | Inr ps' \<Rightarrow> controllerPaths c symtab prefix ctls ps')))"

definition genSwaggerPaths :: "collaborators \<Rightarrow> symtab \<Rightarrow> string \<Rightarrow> controller list \<Rightarrow> error + paths" where
  "genSwaggerPaths c symtab prefix controllers = controllerPaths c symtab prefix controllers []"

text \<open>Every router assigns \<open>def.paths\<close> anew, so the paths of the last router remain.\<close>

fun routerPaths :: "collaborators \<Rightarrow> symtab \<Rightarrow> controller list \<Rightarrow> controller list \<Rightarrow> paths \<Rightarrow> error + paths" where
  "routerPaths c symtab [] controllers ps = Inr ps"
| "routerPaths c symtab (r # rs) controllers ps =
     (case strippedPath (path r) of
        Inl e \<Rightarrow> Inl e
      | Inr prefix \<Rightarrow>
          (case genSwaggerPaths c symtab prefix controllers of
             Inl e \<Rightarrow> Inl e
           | Inr ps' \<Rightarrow> routerPaths c symtab rs controllers ps'))"

definition genSwaggerRoutes :: "collaborators \<Rightarrow> symtab \<Rightarrow> controller list \<Rightarrow> controller list \<Rightarrow> error + paths" where
  "genSwaggerRoutes c symtab routers controllers =
     (if routers = [] then Inl NoRouterDefinitions
      else routerPaths c symtab routers controllers [])"

section \<open>The route module\<close>

text \<open>
  \<open>genRoutes\<close> concatenates the text of the route module. The model keeps the pieces that
  vary: the class name of every \<open>require\<close> and \<open>addRouter\<close> line, one handler per endpoint
  (the router it is registered on, the verb, the path, the method it awaits and whether it
  passes \<open>req.query\<close> or \<open>req.body\<close>) and one mount per controller. The file names computed
  with the \<open>path\<close> library are not modelled.
\<close>

record handler =
  hrouter :: string
  hverb :: string
  hpath :: jsval
  hmethod :: string
  hargument :: string

record routesModule =
  requires :: "string list"
  addRouters :: "string list"
  handlers :: "handler list"
  mounts :: "(string \<times> string) list"

definition handlerOf :: "decoratedFunction \<Rightarrow> handler" where
  "handlerOf ep =
     \<lparr> hrouter = className ep,
       hverb = ftype ep,
       hpath = (case decoratorArgs ep of [] \<Rightarrow> StringVal (decorates ep) | a # _ \<Rightarrow> a),
       hmethod = decorates ep,
       hargument = (if ftype ep = ''get'' \<or> ftype ep = ''put'' then ''req.query'' else ''req.body'') \<rparr>"

fun mountsOf :: "controller list \<Rightarrow> error + (string \<times> string) list" where
  "mountsOf [] = Inr []"
| "mountsOf (ctl # ctls) =
     (case strippedPath (path ctl) of
        Inl e \<Rightarrow> Inl e
      | Inr p \<Rightarrow>
          (case mountsOf ctls of
             Inl e \<Rightarrow> Inl e
           | Inr rest \<Rightarrow> Inr ((p, cclassName ctl) # rest)))"

definition genRoutes :: "decoratedFunction list \<Rightarrow> controller list \<Rightarrow> controller list \<Rightarrow> error + routesModule" where
  "genRoutes endpoints routers controllers =
     (case mountsOf controllers of
        Inl e \<Rightarrow> Inl e
      | Inr ms \<Rightarrow>
          Inr \<lparr> requires = map cclassName controllers,
                addRouters = map cclassName controllers,
                handlers = map handlerOf endpoints,
                mounts = ms \<rparr>)"

section \<open>Generating the three files\<close>

text \<open>
  One entry of the validator module, as \<open>genMethodEntry\<close> writes it: the key
  \<open>className.methodName\<close>, the schema of the parameter list and the parameter names that
  \<open>argsToSchema\<close> maps positions to.
\<close>

record methodEntry =
  mkey :: string
  mschema :: plistSchema
  mparameterNames :: "string list"

definition genMethodEntry :: "string \<Rightarrow> string \<Rightarrow> string list \<Rightarrow> plistSchema \<Rightarrow> methodEntry" where
  "genMethodEntry cn methodName names sch =
     \<lparr> mkey = cn @ ''.'' @ methodName, mschema = sch, mparameterNames = names \<rparr>"

record checkModule =
  definitions :: "(string \<times> schema) list"
  methodEntries :: "methodEntry list"

record swaggerDocument =
  swaggerPaths :: paths
  schemas :: "(string \<times> schema) list"

text \<open>What has been written to the three output streams (\<open>None\<close>: nothing yet).\<close>

record files =
  checkFile :: "checkModule option"
  swaggerFile :: "swaggerDocument option"
  routesFile :: "routesModule option"

definition noFiles :: files where
  "noFiles = \<lparr> checkFile = None, swaggerFile = None, routesFile = None \<rparr>"

text \<open>The loop of \<open>genSources\<close> over all endpoints: translate and mark the parameter list,
  make every parameter required, and add the method's entry.\<close>

fun itemsLoop :: "collaborators \<Rightarrow> nat \<Rightarrow> symtab \<Rightarrow> decoratedFunction list \<Rightarrow> (error + (methodEntry list \<times> symtab)) option" where
  "itemsLoop c n symtab [] = Some (Inr ([], symtab))"
| "itemsLoop c n symtab (item # items) =
     (case parameterListToJSON c n symtab item None of
        None \<Rightarrow> None
      | Some (Inl e) \<Rightarrow> Some (Inl e)
      | Some (Inr (x, symtab')) \<Rightarrow>
          (case itemsLoop c n symtab' items of
             None \<Rightarrow> None
           | Some (Inl e) \<Rightarrow> Some (Inl e)
           | Some (Inr (rest, symtab'')) \<Rightarrow>
               Some (Inr (genMethodEntry (pclassName x) (pmethod x) (parameterNames x)
                            ((pschema x)\<lparr>prequired := Some (parameterNames x)\<rparr>) # rest,
                          symtab''))))"

text \<open>
  \<open>genSources\<close> returns the files as far as they were written and the exception that
  ended it, if any. The preamble and the tags of the OpenAPI document do not depend on
  the endpoints' types and are not modelled.
\<close>

definition genSources :: "collaborators \<Rightarrow> nat \<Rightarrow> symtab \<Rightarrow> decoratedFunction list \<Rightarrow> (files \<times> error option) option" where
  "genSources c n symtab items =
     (case symtabToControllerDefinitions symtab of
        Inl e \<Rightarrow> Some (noFiles, Some e)
      | Inr controllers \<Rightarrow>
          (case symtabToRouterDefinitions symtab of
             Inl e \<Rightarrow> Some (noFiles, Some e)
           | Inr routers \<Rightarrow>
               (case itemsLoop c n symtab items of
                  None \<Rightarrow> None
                | Some (Inl e) \<Rightarrow> Some (noFiles, Some e)
                | Some (Inr (entries, symtab1)) \<Rightarrow>
                    (let (defs, symtab2) = symtabToSchemaDefinitions symtab1;
                         written1 = noFiles\<lparr>checkFile := Some \<lparr> definitions = defs, methodEntries = entries \<rparr>\<rparr>
                     in case genSwaggerRoutes c symtab2 routers controllers of
                          Inl e \<Rightarrow> Some (written1, Some e)
                        | Inr ps \<Rightarrow>
                            (let written2 = written1\<lparr>swaggerFile := Some \<lparr> swaggerPaths = ps, schemas = defs \<rparr>\<rparr>
                             in case genRoutes items routers controllers of
                                  Inl e \<Rightarrow> Some (written2, Some e)
                                | Inr r \<Rightarrow> Some (written2\<lparr>routesFile := Some r\<rparr>, None))))))"

section \<open>The traversal of the source files\<close>

text \<open>
  The traversal reads the syntax tree of the compiler. The model keeps of a declaration
  what \<open>visit\<close>, \<open>visitDecorator\<close> and \<open>visit2\<close> read: its decorators (\<open>None\<close> when
  \<open>node.decorators\<close> is absent), its name, the file it is in, its documentation comment, its
  children, and for a method the parameter list and return type the type checker
  resolves. Of a decorator it keeps the name of its symbol (\<open>None\<close> when the checker finds
  no symbol) and, when its expression is a call, the text of the called identifier and
  the arguments. Of a property signature it keeps the name, the declared type, the
  question mark, and the tags as the doc-comment parser returns them (\<open>Inl\<close> when the
  parser throws). Every child of a source file counts as exported, and among the children
  of a class only decorated ones have an effect (a class has no class or interface among
  its children, so visiting its children does not throw).
\<close>

datatype argument =
    StringLiteral string
  | NumericLiteral string
  | Identifier string
  | FunctionExpression
  | OtherArgument nat

record decorator =
  dname :: "string option"
  dcall :: "(string \<times> argument list) option"

record propertySignature =
  psName :: "string option"
  psType :: "typeNode option"
  psOptional :: bool
  psTags :: "(unit + tag option list) option"

datatype node =
    ClassDeclaration "decorator list option" "string option" "string option" "string option" "node list"
  | MethodDeclaration "decorator list option" "string option" "(string \<times> typeNode) list" "typeNode option" "string option"
  | FunctionDeclaration "decorator list option" "string option" "typeNode option" "string option"
  | InterfaceDeclaration "string option" "string option" "propertySignature list"
  | OtherDeclaration "decorator list option" nat

definition decoratorsOf :: "node \<Rightarrow> decorator list option" where
  "decoratorsOf nd =
     (case nd of
        ClassDeclaration ds _ _ _ _ \<Rightarrow> ds
      | MethodDeclaration ds _ _ _ _ \<Rightarrow> ds
      | FunctionDeclaration ds _ _ _ \<Rightarrow> ds
      | InterfaceDeclaration _ _ _ \<Rightarrow> None
      | OtherDeclaration ds _ \<Rightarrow> ds)"

text \<open>The text of a string literal loses one leading and one trailing quote character.\<close>

definition isQuote :: "char \<Rightarrow> bool" where
  "isQuote ch = (ch = CHR 0x22 \<or> ch = CHR 0x27)"

definition stripQuotes :: "string \<Rightarrow> string" where
  "stripQuotes text =
     (let t1 = (case text of [] \<Rightarrow> text | ch # r \<Rightarrow> if isQuote ch then r else text)
      in if t1 \<noteq> [] \<and> isQuote (last t1) then butlast t1 else t1)"

fun genArgumentList :: "argument list \<Rightarrow> error + jsval list" where
  "genArgumentList [] = Inr []"
| "genArgumentList (OtherArgument k # as) = Inl (UnknownArgument k)"
| "genArgumentList (a # as) =
     (case genArgumentList as of
        Inl e \<Rightarrow> Inl e
      | Inr rest \<Rightarrow>
          Inr ((case a of
                  StringLiteral text \<Rightarrow> [StringVal (stripQuotes text)]
                | NumericLiteral text \<Rightarrow> [NumberVal text]
                | Identifier text \<Rightarrow> [StringVal text]
                | _ \<Rightarrow> []) @ rest))"

record state =
  table :: symtab
  endpoints :: "decoratedFunction list"
  console :: "error list"
  tagWrites :: nat

definition typeEntry :: "string option \<Rightarrow> entry" where
  "typeEntry cm =
     \<lparr> etype = TypeEntry, ename = None, efileName = None, ecomment = cm, emethods = None,
       eargs = None, members = [], relevant = False, def = None \<rparr>"

text \<open>\<open>visit2\<close> on the property signatures of the interface \<open>parentName\<close>. The tag text is
  written to the check file before the parser is called.\<close>

fun visit2 :: "collaborators \<Rightarrow> string \<Rightarrow> state \<Rightarrow> propertySignature list \<Rightarrow> error + state" where
  "visit2 c parentName st [] = Inr st"
| "visit2 c parentName st (sig # sigs) =
     (case (psName sig, psType sig) of
        (Some propertyName, Some ty) \<Rightarrow>
          (case psTags sig of
             Some (Inl _) \<Rightarrow> Inl InvalidJSDoc
           | tg \<Rightarrow>
               (let st1 = (if tg = None then st else st\<lparr>tagWrites := Suc (tagWrites st)\<rparr>);
                    jsDoc = (case tg of Some (Inr ts) \<Rightarrow> [ts] | _ \<Rightarrow> [])
                in case typeToJSON c (table st1) ty jsDoc
                          (Some \<lparr> expandRefs = False, docRoot = Some ''#/components/schemas'' \<rparr>) of
                     Inl e \<Rightarrow> Inl e
                   | Inr None \<Rightarrow> visit2 c parentName st1 sigs
                   | Inr (Some d) \<Rightarrow>
                       (case map_of (table st1) parentName of
                          None \<Rightarrow> Inl TypeError
                        | Some e \<Rightarrow>
                            visit2 c parentName
                              (st1\<lparr>table := AList.update parentName
                                     (e\<lparr>members := AList.update propertyName
                                          \<lparr> desc = d, mtype = ty, optional = psOptional sig \<rparr> (members e)\<rparr>)
                                     (table st1)\<rparr>)
                              sigs)))
      | _ \<Rightarrow> visit2 c parentName st sigs)"

definition isVerb :: "string \<Rightarrow> bool" where
  "isVerb d = (d = ''get'' \<or> d = ''post'' \<or> d = ''put'' \<or> d = ''del'' \<or> d = ''all'')"

text \<open>
  The second half of \<open>visitDecorator\<close>, for a decorator whose expression is a call:
  an endpoint is recorded (\<open>doRuntimeCheck\<close>), or the arguments are stored in the entry of
  the decorated class (\<open>doDecoratedClass\<close>). \<open>enclosing\<close> is the name of the declaration
  that contains the decorated one.
\<close>

definition recordCall :: "state \<Rightarrow> decorator \<Rightarrow> string option \<Rightarrow> bool \<Rightarrow> bool \<Rightarrow> string \<Rightarrow> string option
    \<Rightarrow> (string \<times> typeNode) list \<Rightarrow> typeNode option \<Rightarrow> string option \<Rightarrow> state \<times> error option" where
  "recordCall st d enclosing doRuntimeCheck doDecoratedClass parentName cm ps rt cls =
     (case dcall d of
        None \<Rightarrow> (st, None)
      | Some (idText, arguments) \<Rightarrow>
          if doRuntimeCheck then
            (case enclosing of
               None \<Rightarrow> (st, Some TypeError)
             | Some cn \<Rightarrow>
                 (case genArgumentList arguments of
                    Inl e \<Rightarrow> (st, Some e)
                  | Inr as \<Rightarrow>
                      (st\<lparr>endpoints := endpoints st @
                            [\<lparr> className = cn, comment = cm, decorates = parentName, decoratorArgs = as,
                               methodParameters = ps, returnType = rt,
                               ftype = (if idText = ''del'' then ''delete'' else idText) \<rparr>]\<rparr>, None)))
          else if doDecoratedClass then
            (case cls of
               None \<Rightarrow> (st, Some TypeError)
             | Some cn \<Rightarrow>
                 (case map_of (table st) cn of
                    None \<Rightarrow> (st, Some TypeError)
                  | Some e \<Rightarrow>
                      (case genArgumentList arguments of
                         Inl err \<Rightarrow> (st, Some err)
                       | Inr as \<Rightarrow> (st\<lparr>table := AList.update cn (e\<lparr>eargs := Some as\<rparr>) (table st)\<rparr>, None))))
          else (st, None))"

text \<open>
  \<open>visit\<close> catches and logs whatever \<open>visitDecorator\<close> throws for a decorated node; the
  decorators after the one that threw are skipped, and what was changed before the
  exception stays changed. \<open>visitDecorator\<close> and the loop over the decorators return the
  state together with the exception, if any.
\<close>

fun visit :: "collaborators \<Rightarrow> string option \<Rightarrow> state \<Rightarrow> node \<Rightarrow> error + state"
and visitDecorators :: "collaborators \<Rightarrow> string option \<Rightarrow> state \<Rightarrow> node \<Rightarrow> decorator list \<Rightarrow> state \<times> error option"
and visitDecorator :: "collaborators \<Rightarrow> string option \<Rightarrow> state \<Rightarrow> node \<Rightarrow> decorator \<Rightarrow> state \<times> error option"
and visitChildren :: "collaborators \<Rightarrow> string option \<Rightarrow> state \<Rightarrow> node list \<Rightarrow> error + state"
where
  "visit c enclosing st (ClassDeclaration (Some ds) nm fn cm children) =
     (case visitDecorators c enclosing st (ClassDeclaration (Some ds) nm fn cm children) ds of
        (st', None) \<Rightarrow> Inr st'
      | (st', Some e) \<Rightarrow> Inr (st'\<lparr>console := console st' @ [e]\<rparr>))"
| "visit c enclosing st (ClassDeclaration None nm fn cm children) =
     (case visitChildren c nm st children of
        Inl e \<Rightarrow> Inl e
      | Inr st' \<Rightarrow>
          (case nm of
             None \<Rightarrow> Inl TypeError
           | Some n \<Rightarrow> Inr (st'\<lparr>table := AList.update n (typeEntry cm) (table st')\<rparr>)))"
| "visit c enclosing st (MethodDeclaration (Some ds) nm ps rt cm) =
     (case visitDecorators c enclosing st (MethodDeclaration (Some ds) nm ps rt cm) ds of
        (st', None) \<Rightarrow> Inr st'
      | (st', Some e) \<Rightarrow> Inr (st'\<lparr>console := console st' @ [e]\<rparr>))"
| "visit c enclosing st (MethodDeclaration None nm ps rt cm) = Inr st"
| "visit c enclosing st (FunctionDeclaration (Some ds) nm rt cm) =
     (case visitDecorators c enclosing st (FunctionDeclaration (Some ds) nm rt cm) ds of
        (st', None) \<Rightarrow> Inr st'
      | (st', Some e) \<Rightarrow> Inr (st'\<lparr>console := console st' @ [e]\<rparr>))"
| "visit c enclosing st (FunctionDeclaration None nm rt cm) = Inr st"
| "visit c enclosing st (InterfaceDeclaration nm cm sigs) =
     (case nm of
        None \<Rightarrow> Inr st
      | Some n \<Rightarrow> visit2 c n (st\<lparr>table := AList.update n (typeEntry cm) (table st)\<rparr>) sigs)"
| "visit c enclosing st (OtherDeclaration (Some ds) k) =
     (case visitDecorators c enclosing st (OtherDeclaration (Some ds) k) ds of
        (st', None) \<Rightarrow> Inr st'
      | (st', Some e) \<Rightarrow> Inr (st'\<lparr>console := console st' @ [e]\<rparr>))"
| "visit c enclosing st (OtherDeclaration None k) = Inr st"
| "visitDecorators c enclosing st parent [] = (st, None)"
| "visitDecorators c enclosing st parent (d # ds) =
     (case visitDecorator c enclosing st parent d of
        (st', Some e) \<Rightarrow> (st', Some e)
      | (st', None) \<Rightarrow> visitDecorators c enclosing st' parent ds)"
| "visitDecorator c enclosing st (FunctionDeclaration ds nm rt cm) d =
     (case dname d of
        None \<Rightarrow> (st, Some TypeError)
      | Some dn \<Rightarrow>
          recordCall st d enclosing True False (case nm of None \<Rightarrow> ''unknown'' | Some n \<Rightarrow> n)
            (if nm = None then None else cm) [] rt None)"
| "visitDecorator c enclosing st (MethodDeclaration ds nm ps rt cm) d =
     (case dname d of
        None \<Rightarrow> (st, Some TypeError)
      | Some dn \<Rightarrow>
          if isVerb dn then
            (case nm of
               None \<Rightarrow> (st, Some TypeError)
             | Some n \<Rightarrow> recordCall st d enclosing True False n cm ps rt None)
          else recordCall st d enclosing False False ''unknown'' None [] None None)"
| "visitDecorator c enclosing st (ClassDeclaration ds nm fn cm children) d =
     (case dname d of
        None \<Rightarrow> (st, Some TypeError)
      | Some dn \<Rightarrow>
          (case nm of
             None \<Rightarrow> (st, Some TypeError)
           | Some cn \<Rightarrow>
               (case visitChildren c nm st children of
                  Inl e \<Rightarrow> (st, Some e)
                | Inr st1 \<Rightarrow>
                    if dn = ''controller'' then
                      (case addController (table st1) cn fn cm of
                         Inl e \<Rightarrow> (st1, Some e)
                       | Inr t \<Rightarrow> recordCall (st1\<lparr>table := t\<rparr>) d enclosing False True ''unknown'' cm [] None nm)
                    else if dn = ''router'' then
                      (case addRouter (table st1) cn fn cm of
                         Inl e \<Rightarrow> (st1, Some e)
                       | Inr t \<Rightarrow> recordCall (st1\<lparr>table := t\<rparr>) d enclosing False True ''unknown'' cm [] None nm)
                    else recordCall st1 d enclosing False False ''unknown'' cm [] None nm)))"
| "visitDecorator c enclosing st (InterfaceDeclaration nm cm sigs) d =
     (case dname d of None \<Rightarrow> (st, Some TypeError) | Some dn \<Rightarrow> (st, Some (UnknownDecorated 0)))"
| "visitDecorator c enclosing st (OtherDeclaration ds k) d =
     (case dname d of None \<Rightarrow> (st, Some TypeError) | Some dn \<Rightarrow> (st, Some (UnknownDecorated k)))"
| "visitChildren c enclosing st [] = Inr st"
| "visitChildren c enclosing st (ch # chs) =
     (case visit c enclosing st ch of
        Inl e \<Rightarrow> Inl e
      | Inr st' \<Rightarrow> visitChildren c enclosing st' chs)"

section \<open>A run\<close>

text \<open>
  \<open>generate\<close> starts from the empty table, visits the children of every source file in
  turn, connects the endpoints and generates the files. Its result tells what was written
  to the three files, how many tag texts the traversal wrote to the check file, which
  exception ended the run (\<open>None\<close>: it ran to its end) and what was logged.
\<close>

record run =
  written :: files
  tagTexts :: nat
  thrown :: "error option"
  logged :: "error list"

definition initialState :: state where
  "initialState = \<lparr> table = [], endpoints = [], console = [], tagWrites = 0 \<rparr>"

definition generate :: "collaborators \<Rightarrow> nat \<Rightarrow> node list \<Rightarrow> run option" where
  "generate c n nodes =
     (case visitChildren c None initialState nodes of
        Inl e \<Rightarrow> Some \<lparr> written = noFiles, tagTexts = 0, thrown = Some e, logged = [] \<rparr>
      | Inr st \<Rightarrow>
          (case connectMethods (table st) (endpoints st) of
             Inl e \<Rightarrow> Some \<lparr> written = noFiles, tagTexts = tagWrites st, thrown = Some e, logged = console st \<rparr>
           | Inr t \<Rightarrow>
               (case genSources c n t (endpoints st) of
                  None \<Rightarrow> None
                | Some (fs, err) \<Rightarrow>
                    Some \<lparr> written = fs, tagTexts = tagWrites st, thrown = err, logged = console st \<rparr>)))"

section \<open>Notions used in the statements\<close>

text \<open>A tag that sets the type name \<open>null\<close>: once written, a fragment no longer counts as
  typed.\<close>

definition namesNull :: "tag option \<Rightarrow> bool" where
  "namesNull tg =
     (case tg of
        None \<Rightarrow> False
      | Some t \<Rightarrow> title t = ''type'' \<and> ttype t = Some (NameExpression ''null''))"

text \<open>The value of \<open>parseInt\<close> on the two descriptions used in the examples below.\<close>

definition sampleParseInt :: "string option \<Rightarrow> jsnum" where
  "sampleParseInt d = (if d = Some ''1'' then Num 1 else if d = Some ''2'' then Num 2 else NaN)"

section \<open>References between registered types\<close>

text \<open>
  The names a type node refers to, through element types, type arguments and union
  members, in the order \<open>markAsRelevant\<close> meets them; and the declared types of the members
  of an entry.
\<close>

fun refNames :: "typeNode \<Rightarrow> string list" where
  "refNames (ArrayType t) = refNames t"
| "refNames (TypeReference n None) = [n]"
| "refNames (TypeReference n (Some as)) = n # concat (map refNames as)"
| "refNames (UnionType ts) = concat (map refNames ts)"
| "refNames t = []"

definition memberTypes :: "entry \<Rightarrow> typeNode list" where
  "memberTypes e = map (\<lambda>m. mtype (snd m)) (members e)"

text \<open>A name is reached from a type node when the node refers to it, or when a member
  of a registered entry that is reached refers to it.\<close>

inductive reaches :: "symtab \<Rightarrow> typeNode \<Rightarrow> string \<Rightarrow> bool" for st :: symtab and t :: typeNode where
  direct: "x \<in> set (refNames t) \<Longrightarrow> reaches st t x"
| through: "reaches st t x \<Longrightarrow> map_of st x = Some e \<Longrightarrow> m \<in> set (memberTypes e)
           \<Longrightarrow> y \<in> set (refNames m) \<Longrightarrow> reaches st t y"

definition relevantIn :: "symtab \<Rightarrow> string \<Rightarrow> bool" where
  "relevantIn st k = (case map_of st k of None \<Rightarrow> False | Some e \<Rightarrow> relevant e)"

text \<open>\<open>grows st st'\<close>: the table \<open>st'\<close> has the entries of \<open>st\<close>, except that relevance
  flags may have been set.\<close>

definition grows :: "symtab \<Rightarrow> symtab \<Rightarrow> bool" where
  "grows st st' =
     (\<forall>k. case map_of st k of
            None \<Rightarrow> map_of st' k = None
          | Some e \<Rightarrow> map_of st' k = Some e \<or> map_of st' k = Some (e\<lparr>relevant := True\<rparr>))"

text \<open>
  The references between the registered types have no cycle when the names can be ranked
  so that every member refers to names of lower rank only.
\<close>

definition ranked :: "(string \<Rightarrow> nat) \<Rightarrow> symtab \<Rightarrow> bool" where
  "ranked rk st =
     (\<forall>k e. map_of st k = Some e \<longrightarrow>
        (\<forall>m \<in> set (memberTypes e). \<forall>x \<in> set (refNames m). rk x < rk k))"

text \<open>Every name that a member of a registered entry refers to is registered.\<close>

definition closed :: "symtab \<Rightarrow> bool" where
  "closed st =
     (\<forall>k e. map_of st k = Some e \<longrightarrow>
        (\<forall>m \<in> set (memberTypes e). \<forall>x \<in> set (refNames m). map_of st x \<noteq> None))"

text \<open>
  \<open>marked st R st'\<close>: the table \<open>st'\<close> is \<open>st\<close> with the relevance flag set on exactly the
  names in \<open>R\<close> in addition. \<open>outcome st R r\<close> describes a result of marking that started in
  \<open>st\<close> and may visit the names in \<open>R\<close>: it returned the table marked with \<open>R\<close>, or it threw
  the error for a name of \<open>R\<close> that is not registered.
\<close>

definition marked :: "symtab \<Rightarrow> string set \<Rightarrow> symtab \<Rightarrow> bool" where
  "marked st R st' = (grows st st' \<and> (\<forall>x. relevantIn st' x = (relevantIn st x \<or> x \<in> R)))"

definition outcome :: "symtab \<Rightarrow> string set \<Rightarrow> error + symtab \<Rightarrow> bool" where
  "outcome st R r =
     (case r of
        Inr st' \<Rightarrow> marked st R st'
      | Inl err \<Rightarrow> (\<exists>x \<in> R. err = UndefinedType x \<and> map_of st x = None))"

text \<open>
  A depth that suffices for \<open>markAsRelevant\<close> on a node, when \<open>rk\<close> ranks the names and no
  member type of the table is larger than \<open>M\<close>.
\<close>

definition nameBound :: "(string \<Rightarrow> nat) \<Rightarrow> typeNode \<Rightarrow> nat" where
  "nameBound rk t = Max (insert 0 ((\<lambda>x. Suc (rk x)) ` set (refNames t)))"

definition sized :: "nat \<Rightarrow> symtab \<Rightarrow> bool" where
  "sized M st = (\<forall>k e. map_of st k = Some e \<longrightarrow> (\<forall>m \<in> set (memberTypes e). size m \<le> M))"

definition memberBound :: "symtab \<Rightarrow> nat" where
  "memberBound st = Max (insert 0 (size ` (\<Union>ke \<in> set st. set (memberTypes (snd ke)))))"

definition enoughFuel :: "(string \<Rightarrow> nat) \<Rightarrow> nat \<Rightarrow> typeNode \<Rightarrow> nat" where
  "enoughFuel rk M t = Suc (size t) + nameBound rk t * Suc M"

text \<open>\<open>refersTo st a b\<close>: the entry registered as \<open>a\<close> has a member whose type refers to \<open>b\<close>.
  \<open>endpointReaches st item x\<close>: the name \<open>x\<close> is reached from the type of a parameter or
  from the return type of the endpoint.\<close>

definition refersTo :: "symtab \<Rightarrow> string \<Rightarrow> string \<Rightarrow> bool" where
  "refersTo st a b = (\<exists>e. map_of st a = Some e \<and> (\<exists>m \<in> set (memberTypes e). b \<in> set (refNames m)))"

definition endpointReaches :: "symtab \<Rightarrow> decoratedFunction \<Rightarrow> string \<Rightarrow> bool" where
  "endpointReaches st item x =
     ((\<exists>p \<in> set (methodParameters item). reaches st (snd p) x)
      \<or> (\<exists>rt. returnType item = Some rt \<and> reaches st rt x))"

text \<open>\<open>relevantType st k\<close>: \<open>k\<close> is registered as a type declaration and its relevance flag is
  set.\<close>

definition relevantType :: "symtab \<Rightarrow> string \<Rightarrow> bool" where
  "relevantType st k = (case map_of st k of None \<Rightarrow> False | Some e \<Rightarrow> etype e = TypeEntry \<and> relevant e)"

section \<open>A sample program\<close>

text \<open>
  The collaborators and declarations used at concrete inputs: an interface \<open>Widget\<close> with
  the members \<open>id: number\<close> and \<open>name: string\<close>, a router class \<open>Api\<close> decorated
  \<open>@router("/api")\<close>, and controller classes decorated \<open>@controller("/widgets")\<close>.
\<close>

definition sampleCollaborators :: collaborators where
  "sampleCollaborators = \<lparr> parseInt = sampleParseInt, symbolDoc = (\<lambda>t. None) \<rparr>"

definition quoted :: "string \<Rightarrow> string" where
  "quoted s = CHR 0x22 # s @ [CHR 0x22]"

definition widgetInterface :: node where
  "widgetInterface =
     InterfaceDeclaration (Some ''Widget'') None
       [\<lparr> psName = Some ''id'', psType = Some (TokenObject NumberKeyword), psOptional = False, psTags = None \<rparr>,
        \<lparr> psName = Some ''name'', psType = Some (TokenObject StringKeyword), psOptional = False, psTags = None \<rparr>]"

definition apiRouter :: node where
  "apiRouter =
     ClassDeclaration (Some [\<lparr> dname = Some ''router'', dcall = Some (''router'', [StringLiteral (quoted ''/api'')]) \<rparr>])
       (Some ''Api'') (Some ''api.ts'') None []"

text \<open>A method \<open>name\<close> decorated with the verb \<open>get\<close> and the given decorator arguments.\<close>

definition getMethod :: "string \<Rightarrow> argument list \<Rightarrow> (string \<times> typeNode) list \<Rightarrow> typeNode option \<Rightarrow> node" where
  "getMethod nm as ps rt =
     MethodDeclaration (Some [\<lparr> dname = Some ''get'', dcall = Some (''get'', as) \<rparr>]) (Some nm) ps rt None"

definition controllerClass :: "string \<Rightarrow> string \<Rightarrow> node list \<Rightarrow> node" where
  "controllerClass nm fn children =
     ClassDeclaration (Some [\<lparr> dname = Some ''controller'', dcall = Some (''controller'', [StringLiteral (quoted ''/widgets'')]) \<rparr>])
       (Some nm) (Some fn) None children"

text \<open>An interface with the given properties, all required and without tags; and the table
  that the traversal builds from a list of declarations.\<close>

definition interface :: "string \<Rightarrow> (string \<times> typeNode) list \<Rightarrow> node" where
  "interface nm props =
     InterfaceDeclaration (Some nm) None
       (map (\<lambda>p. \<lparr> psName = Some (fst p), psType = Some (snd p), psOptional = False, psTags = None \<rparr>) props)"

definition tableOf :: "node list \<Rightarrow> symtab" where
  "tableOf nodes =
     (case visitChildren sampleCollaborators None initialState nodes of
        Inr st \<Rightarrow> table st
      | Inl e \<Rightarrow> [])"

text \<open>Two interfaces that refer to each other, and two that do not.\<close>

definition cyclicTable :: symtab where
  "cyclicTable =
     tableOf [interface ''A'' [(''b'', TypeReference ''B'' None)],
              interface ''B'' [(''a'', TypeReference ''A'' None)]]"

definition acyclicTable :: symtab where
  "acyclicTable =
     tableOf [interface ''A'' [(''b'', TypeReference ''B'' None)],
              interface ''B'' [(''n'', TokenObject NumberKeyword)]]"

definition sampleRank :: "string \<Rightarrow> nat" where
  "sampleRank x = (if x = ''A'' then 1 else 0)"

text \<open>
  Programs: the interfaces \<open>Promise\<close> (as the standard library declares it), \<open>Widget\<close> and
  \<open>Unused\<close>, a controller \<open>Widgets\<close> with one method \<open>list\<close> decorated \<open>@get\<close> with the
  given arguments and return type, and the router; two controllers with the same class
  name; and a class that is decorated, but not as a controller, with a decorated method.
\<close>

definition endpointsOf :: "node list \<Rightarrow> decoratedFunction list" where
  "endpointsOf nodes =
     (case visitChildren sampleCollaborators None initialState nodes of
        Inr st \<Rightarrow> endpoints st
      | Inl e \<Rightarrow> [])"

definition widgetsProgram :: "argument list \<Rightarrow> typeNode option \<Rightarrow> node list" where
  "widgetsProgram as rt =
     [interface ''Promise'' [], widgetInterface, interface ''Unused'' [(''x'', TokenObject StringKeyword)],
      controllerClass ''Widgets'' ''widgets.ts'' [getMethod ''list'' as [] rt],
      apiRouter]"

definition duplicateProgram :: "node list" where
  "duplicateProgram =
     [controllerClass ''Widgets'' ''a.ts'' [getMethod ''list'' [] [] (Some (TokenObject NumberKeyword))],
      controllerClass ''Widgets'' ''b.ts'' [getMethod ''find'' [] [] (Some (TokenObject NumberKeyword))],
      apiRouter]"

definition unattachedProgram :: "node list" where
  "unattachedProgram =
     [ClassDeclaration (Some [\<lparr> dname = Some ''injectable'', dcall = None \<rparr>]) (Some ''Foo'') (Some ''foo.ts'') None
        [getMethod ''bar'' [] [] (Some (TokenObject NumberKeyword))],
      apiRouter]"

text \<open>An endpoint \<open>Widgets.list\<close> decorated \<open>@get\<close>, with the given parameters and return type.\<close>

definition sampleEndpoint :: "(string \<times> typeNode) list \<Rightarrow> typeNode option \<Rightarrow> decoratedFunction" where
  "sampleEndpoint ps rt =
     \<lparr> className = ''Widgets'', comment = None, decorates = ''list'', decoratorArgs = [],
       methodParameters = ps, returnType = rt, ftype = ''get'' \<rparr>"

text \<open>The table of a program after its endpoints have been connected.\<close>

definition connectedTable :: "node list \<Rightarrow> symtab" where
  "connectedTable nodes =
     (case connectMethods (tableOf nodes) (endpointsOf nodes) of
        Inr t \<Rightarrow> t
      | Inl e \<Rightarrow> [])"

text \<open>What a run wrote, for comparison: the keys of the validator module, the paths of the
  document, the schemas of the responses in the document, and the router and path of
  every handler of the route module.\<close>

definition validatorKeys :: "run option \<Rightarrow> string list" where
  "validatorKeys r =
     (case r of
        None \<Rightarrow> []
      | Some x \<Rightarrow> (case checkFile (written x) of None \<Rightarrow> [] | Some cm \<Rightarrow> map mkey (methodEntries cm)))"

definition documentPaths :: "run option \<Rightarrow> string list" where
  "documentPaths r =
     (case r of
        None \<Rightarrow> []
      | Some x \<Rightarrow> (case swaggerFile (written x) of None \<Rightarrow> [] | Some d \<Rightarrow> map fst (swaggerPaths d)))"

definition responseSchemas :: "run option \<Rightarrow> (string \<times> schema option) list" where
  "responseSchemas r =
     (case r of
        None \<Rightarrow> []
      | Some x \<Rightarrow>
          (case swaggerFile (written x) of
             None \<Rightarrow> []
           | Some d \<Rightarrow>
               concat (map (\<lambda>p. concat (map (\<lambda>v. map (\<lambda>rs. (fst rs, rschema (snd rs))) (responses (snd v))) (snd p)))
                           (swaggerPaths d))))"

definition routeHandlers :: "run option \<Rightarrow> (string \<times> jsval) list" where
  "routeHandlers r =
     (case r of
        None \<Rightarrow> []
      | Some x \<Rightarrow>
          (case routesFile (written x) of
             None \<Rightarrow> []
           | Some m \<Rightarrow> map (\<lambda>h. (hrouter h, hpath h)) (handlers m)))"

definition allWritten :: "run option \<Rightarrow> bool" where
  "allWritten r =
     (case r of
        None \<Rightarrow> False
      | Some x \<Rightarrow> checkFile (written x) \<noteq> None \<and> swaggerFile (written x) \<noteq> None \<and> routesFile (written x) \<noteq> None)"

text \<open>A controller and a router with the same class name.\<close>

definition sameNameProgram :: "node list" where
  "sameNameProgram =
     [controllerClass ''Api'' ''a.ts'' [getMethod ''list'' [] [] (Some (TokenObject NumberKeyword))],
      apiRouter]"

text \<open>The state of the traversal after a list of declarations.\<close>

definition stateOf :: "node list \<Rightarrow> state" where
  "stateOf nodes =
     (case visitChildren sampleCollaborators None initialState nodes of
        Inr st \<Rightarrow> st
      | Inl e \<Rightarrow> initialState)"

section \<open>Properties of the schema setters and the tags\<close>

lemma sel_set [simp]:
  "stype (set_type v s) = Some v" "oneOf (set_type v s) = oneOf s"
  "stype (set_minimum n s) = stype s" "oneOf (set_minimum n s) = oneOf s"
  "stype (set_maximum n s) = stype s" "oneOf (set_maximum n s) = oneOf s"
  "stype (set_oneOf xs s) = stype s" "oneOf (set_oneOf xs s) = Some xs"
  by (cases s; simp add: set_type_def set_minimum_def set_maximum_def set_oneOf_def)+

lemma set_twice [simp]:
  "set_type v (set_type w s) = set_type v s"
  "set_minimum n (set_minimum m s) = set_minimum n s"
  "set_maximum n (set_maximum m s) = set_maximum n s"
  "set_oneOf xs (set_oneOf ys s) = set_oneOf xs s"
  by (cases s; simp add: set_type_def set_minimum_def set_maximum_def set_oneOf_def)+

lemma set_commute:
  "set_minimum n (set_maximum m s) = set_maximum m (set_minimum n s)"
  "set_type v (set_minimum n s) = set_minimum n (set_type v s)"
  "set_type v (set_maximum n s) = set_maximum n (set_type v s)"
  "set_oneOf xs (set_minimum n s) = set_minimum n (set_oneOf xs s)"
  "set_oneOf xs (set_maximum n s) = set_maximum n (set_oneOf xs s)"
  "set_oneOf xs (set_type v s) = set_type v (set_oneOf xs s)"
  by (cases s; simp add: set_type_def set_minimum_def set_maximum_def set_oneOf_def)+

lemma hasType_setValue [simp]: "hasType (setValue t v s) = hasType s"
  by (cases t) (simp_all add: hasType_def setValue_def)

lemma hasType_set_oneOf [simp]: "hasType (set_oneOf xs s) = hasType s"
  by (simp add: hasType_def)

lemma hasType_set_type [simp]: "hasType (set_type n s) = (n \<noteq> ''null'')"
  by (simp add: hasType_def)

lemma setValue_twice [simp]: "setValue t v (setValue t w s) = setValue t v s"
  by (cases t) (simp_all add: setValue_def)

lemma oneOf_setValue [simp]: "oneOf (setValue t v s) = oneOf s"
  by (cases t) (simp_all add: setValue_def)

lemma setValue_commute:
  "setValue Minimum v (setValue Maximum w s) = setValue Maximum w (setValue Minimum v s)"
  "set_type n (setValue t v s) = setValue t v (set_type n s)"
  "set_oneOf xs (setValue t v s) = setValue t v (set_oneOf xs s)"
  by (cases t; simp add: setValue_def set_commute)+

text \<open>What the loops over \<open>oneOf\<close> do to one element, composed with itself and with each
  other.\<close>

lemma leaf_value_idem:
  "(\<lambda>x. if hasType x then setValue t v x else x) \<circ> (\<lambda>x. if hasType x then setValue t v x else x)
   = (\<lambda>x. if hasType x then setValue t v x else x)"
  by (auto simp: fun_eq_iff)

lemma leaf_type_idem:
  "(\<lambda>x. if hasType x then set_type n x else x) \<circ> (\<lambda>x. if hasType x then set_type n x else x)
   = (\<lambda>x. if hasType x then set_type n x else x)"
  by (auto simp: fun_eq_iff)

lemma leaf_value_value:
  "(\<lambda>x. if hasType x then setValue Maximum w x else x) \<circ> (\<lambda>x. if hasType x then setValue Minimum v x else x)
   = (\<lambda>x. if hasType x then setValue Minimum v x else x) \<circ> (\<lambda>x. if hasType x then setValue Maximum w x else x)"
  by (auto simp: fun_eq_iff setValue_commute)

lemma leaf_value_type:
  "n \<noteq> ''null'' \<Longrightarrow>
   (\<lambda>x. if hasType x then set_type n x else x) \<circ> (\<lambda>x. if hasType x then setValue t v x else x)
   = (\<lambda>x. if hasType x then setValue t v x else x) \<circ> (\<lambda>x. if hasType x then set_type n x else x)"
  by (auto simp: fun_eq_iff setValue_commute)

lemma applyValueTag_idem: "applyValueTag (applyValueTag s t v) t v = applyValueTag s t v"
  by (auto simp: applyValueTag_def leaf_value_idem split: option.splits)

lemma applyTypenameTag_idem:
  "n \<noteq> ''null'' \<Longrightarrow> applyTypenameTag (applyTypenameTag s n) n = applyTypenameTag s n"
  by (auto simp: applyTypenameTag_def leaf_type_idem split: option.splits)

lemma value_value_commute:
  "applyValueTag (applyValueTag s Minimum v) Maximum w = applyValueTag (applyValueTag s Maximum w) Minimum v"
  by (auto simp: applyValueTag_def setValue_commute leaf_value_value split: option.splits)

lemma value_type_commute:
  "n \<noteq> ''null'' \<Longrightarrow> applyTypenameTag (applyValueTag s t v) n = applyValueTag (applyTypenameTag s n) t v"
  by (auto simp: applyValueTag_def applyTypenameTag_def setValue_commute leaf_value_type split: option.splits)

lemma applyTag_twice: "\<not> namesNull t \<Longrightarrow> applyTwo p s t t = applyTag p s t"
  by (auto simp: applyTwo_def applyTag_def namesNull_def applyValueTag_idem applyTypenameTag_idem
           split: option.splits tagType.splits)

lemma applyTag_swap:
  "\<not> namesNull t1 \<Longrightarrow> \<not> namesNull t2 \<Longrightarrow> map_option title t1 \<noteq> map_option title t2
   \<Longrightarrow> applyTwo p s t1 t2 = applyTwo p s t2 t1"
  by (auto simp: applyTwo_def applyTag_def namesNull_def value_value_commute value_type_commute
           split: option.splits tagType.splits)

text \<open>
  Claim C9, as stated: on every fragment, applying a tag twice equals applying it once,
  and two tags can be applied in either order. It fails for two \<open>minimum\<close> tags with
  different values on the fragment \<open>{type:"number"}\<close>: the tag applied last sets the
  bound.
\<close>

theorem applyTag_order_counterexample:
  "applyTwo sampleParseInt (typeSchema ''number'')
     (Some \<lparr> title = ''minimum'', tdescription = Some ''1'', ttype = None \<rparr>)
     (Some \<lparr> title = ''minimum'', tdescription = Some ''2'', ttype = None \<rparr>)
   \<noteq> applyTwo sampleParseInt (typeSchema ''number'')
     (Some \<lparr> title = ''minimum'', tdescription = Some ''2'', ttype = None \<rparr>)
     (Some \<lparr> title = ''minimum'', tdescription = Some ''1'', ttype = None \<rparr>)"
  by (simp add: applyTwo_def applyTag_def applyValueTag_def hasType_def typeSchema_def
        setValue_def set_minimum_def sampleParseInt_def)

text \<open>
  Claim C9, amended: for tags that do not set the type name \<open>null\<close>, applying a tag twice
  equals applying it once on every fragment, and two tags with different titles can be
  applied in either order.
\<close>

theorem applyTag_idempotent_and_commutes:
  assumes "\<not> namesNull t1" and "\<not> namesNull t2"
  shows "applyTwo p s t1 t1 = applyTag p s t1
       \<and> (map_option title t1 \<noteq> map_option title t2 \<longrightarrow> applyTwo p s t1 t2 = applyTwo p s t2 t1)"
  using assms by (simp add: applyTag_twice applyTag_swap)

theorem applyTag_idempotent_and_commutes_witness:
  "\<not> namesNull (Some \<lparr> title = ''minimum'', tdescription = Some ''1'', ttype = None \<rparr>)
   \<and> \<not> namesNull (Some \<lparr> title = ''type'', tdescription = None, ttype = Some (NameExpression ''integer'') \<rparr>)
   \<and> map_option title (Some \<lparr> title = ''minimum'', tdescription = Some ''1'', ttype = None \<rparr>)
       \<noteq> map_option title (Some \<lparr> title = ''type'', tdescription = None, ttype = Some (NameExpression ''integer'') \<rparr>)
   \<and> applyTwo sampleParseInt (typeSchema ''number'')
        (Some \<lparr> title = ''minimum'', tdescription = Some ''1'', ttype = None \<rparr>)
        (Some \<lparr> title = ''minimum'', tdescription = Some ''1'', ttype = None \<rparr>)
       = applyTag sampleParseInt (typeSchema ''number'')
        (Some \<lparr> title = ''minimum'', tdescription = Some ''1'', ttype = None \<rparr>)
   \<and> applyTwo sampleParseInt (typeSchema ''number'')
        (Some \<lparr> title = ''minimum'', tdescription = Some ''1'', ttype = None \<rparr>)
        (Some \<lparr> title = ''type'', tdescription = None, ttype = Some (NameExpression ''integer'') \<rparr>)
       = applyTwo sampleParseInt (typeSchema ''number'')
        (Some \<lparr> title = ''type'', tdescription = None, ttype = Some (NameExpression ''integer'') \<rparr>)
        (Some \<lparr> title = ''minimum'', tdescription = Some ''1'', ttype = None \<rparr>)"
  using applyTag_idempotent_and_commutes
    [of "Some \<lparr> title = ''minimum'', tdescription = Some ''1'', ttype = None \<rparr>"
        "Some \<lparr> title = ''type'', tdescription = None, ttype = Some (NameExpression ''integer'') \<rparr>"
        sampleParseInt "typeSchema ''number''"]
  by (simp add: namesNull_def)

section \<open>The \<open>any\<close> keyword\<close>

text \<open>
  Claim C10: translating the \<open>any\<close> keyword yields neither \<open>null\<close> nor a bare object
  schema, but exactly \<open>{oneOf:[{type:"object"},{type:"number"},{type:"string"}]}\<close>.
\<close>

theorem any_keyword_translation:
  "tokenObjectToJSON AnyKeyword =
     Inr (Some (Schema None None
                  (Some [Schema (Some ''object'') None None None None None None None None None,
                         Schema (Some ''number'') None None None None None None None None None,
                         Schema (Some ''string'') None None None None None None None None None])
                  None None None None None None None))
   \<and> tokenObjectToJSON AnyKeyword \<noteq> Inr None
   \<and> tokenObjectToJSON AnyKeyword \<noteq> Inr (Some (typeSchema ''object''))"
  by (simp add: set_oneOf_def emptySchema_def typeSchema_def)

section \<open>Tables that differ in relevance flags only\<close>

lemma grows_refl [simp]: "grows st st"
  by (auto simp: grows_def split: option.splits)

lemma grows_at:
  assumes "grows st st'"
  shows "case map_of st k of None \<Rightarrow> map_of st' k = None
         | Some e \<Rightarrow> map_of st' k = Some e \<or> map_of st' k = Some (e\<lparr>relevant := True\<rparr>)"
  using assms unfolding grows_def by blast

lemma grows_trans:
  assumes ab: "grows a b" and bc: "grows b c"
  shows "grows a c"
  unfolding grows_def
proof
  fix k
  show "case map_of a k of None \<Rightarrow> map_of c k = None
        | Some e \<Rightarrow> map_of c k = Some e \<or> map_of c k = Some (e\<lparr>relevant := True\<rparr>)"
  proof (cases "map_of a k")
    case None
    with grows_at[OF ab, of k] have "map_of b k = None" by simp
    with grows_at[OF bc, of k] have "map_of c k = None" by simp
    with None show ?thesis by simp
  next
    case (Some e)
    with grows_at[OF ab, of k] have "map_of b k = Some e \<or> map_of b k = Some (e\<lparr>relevant := True\<rparr>)" by simp
    then have "map_of c k = Some e \<or> map_of c k = Some (e\<lparr>relevant := True\<rparr>)"
    proof
      assume "map_of b k = Some e"
      with grows_at[OF bc, of k] show ?thesis by simp
    next
      assume "map_of b k = Some (e\<lparr>relevant := True\<rparr>)"
      with grows_at[OF bc, of k] show ?thesis by simp
    qed
    with Some show ?thesis by simp
  qed
qed

lemma grows_update:
  "map_of st k = Some e \<Longrightarrow> grows st (AList.update k (e\<lparr>relevant := True\<rparr>) st)"
  by (auto simp: grows_def update_conv' split: option.splits)

lemma grows_None: "grows st st' \<Longrightarrow> map_of st k = None \<Longrightarrow> map_of st' k = None"
  using grows_at[of st st' k] by simp

lemma grows_Some:
  "grows st st' \<Longrightarrow> map_of st k = Some e \<Longrightarrow>
   \<exists>e'. map_of st' k = Some e' \<and> members e' = members e \<and> etype e' = etype e \<and> (relevant e \<longrightarrow> relevant e')"
  using grows_at[of st st' k] by auto

lemma grows_Some_rev:
  "grows st st' \<Longrightarrow> map_of st' k = Some e' \<Longrightarrow>
   \<exists>e. map_of st k = Some e \<and> members e' = members e \<and> etype e' = etype e \<and> (e' = e \<or> e' = e\<lparr>relevant := True\<rparr>)"
  using grows_at[of st st' k] by (cases "map_of st k") auto

lemma grows_memberTypes:
  "grows st st' \<Longrightarrow> map_of st k = Some e \<Longrightarrow> map_of st' k = Some e' \<Longrightarrow> memberTypes e' = memberTypes e"
  by (auto simp: memberTypes_def dest: grows_Some)

lemma grows_relevantIn: "grows st st' \<Longrightarrow> relevantIn st k \<Longrightarrow> relevantIn st' k"
  by (auto simp: relevantIn_def split: option.splits dest: grows_Some grows_None)

lemma grows_reaches:
  assumes g: "grows st st'"
  shows "reaches st t x \<Longrightarrow> reaches st' t x"
proof (induction rule: reaches.induct)
  case (direct x) then show ?case by (rule reaches.direct)
next
  case (through x e m y)
  from grows_Some[OF g through.hyps(2)] obtain e' where e': "map_of st' x = Some e'" "members e' = members e" by blast
  then have "m \<in> set (memberTypes e')" using through.hyps(3) by (simp add: memberTypes_def)
  with through e' show ?case by (blast intro: reaches.through)
qed

lemma grows_reaches_rev:
  assumes g: "grows st st'"
  shows "reaches st' t x \<Longrightarrow> reaches st t x"
proof (induction rule: reaches.induct)
  case (direct x) then show ?case by (rule reaches.direct)
next
  case (through x e' m y)
  from grows_Some_rev[OF g through.hyps(2)] obtain e where e: "map_of st x = Some e" "members e' = members e" by blast
  then have "m \<in> set (memberTypes e)" using through.hyps(3) by (simp add: memberTypes_def)
  with through e show ?case by (blast intro: reaches.through)
qed

lemma grows_ranked: "grows st st' \<Longrightarrow> ranked rk st \<Longrightarrow> ranked rk st'"
  unfolding ranked_def
  by (metis grows_Some_rev memberTypes_def)

lemma grows_closed:
  assumes g: "grows st st'" and c: "closed st"
  shows "closed st'"
  unfolding closed_def
proof (intro allI impI ballI)
  fix k e' m x
  assume k: "map_of st' k = Some e'" and m: "m \<in> set (memberTypes e')" and x: "x \<in> set (refNames m)"
  from grows_Some_rev[OF g k] obtain e where e: "map_of st k = Some e" "members e' = members e" by blast
  with m have "m \<in> set (memberTypes e)" by (simp add: memberTypes_def)
  with c e x have "map_of st x \<noteq> None" unfolding closed_def by blast
  then obtain ex where "map_of st x = Some ex" by blast
  from grows_Some[OF g this] show "map_of st' x \<noteq> None" by auto
qed

lemma grows_None_rev: "grows st st' \<Longrightarrow> map_of st' k = None \<Longrightarrow> map_of st k = None"
  using grows_at[of st st' k] by (cases "map_of st k") auto

lemma reaches_grows_eq: "grows st st' \<Longrightarrow> {x. reaches st' t x} = {x. reaches st t x}"
  by (auto intro: grows_reaches grows_reaches_rev)

section \<open>What is reached from a node\<close>

lemma reaches_self: "reaches st (TypeReference r None) r"
  by (rule reaches.direct) simp

lemma reaches_root: "reaches st t x \<Longrightarrow> \<exists>r\<in>set (refNames t). reaches st (TypeReference r None) x"
proof (induction rule: reaches.induct)
  case (direct x)
  then show ?case using reaches_self by blast
next
  case (through x e m y)
  then obtain r where "r \<in> set (refNames t)" "reaches st (TypeReference r None) x" by blast
  with through.hyps show ?case by (blast intro: reaches.through)
qed

lemma reaches_from_root:
  assumes r: "r \<in> set (refNames t)"
  shows "reaches st (TypeReference r None) x \<Longrightarrow> reaches st t x"
proof (induction rule: reaches.induct)
  case (direct x)
  then have "x = r" by simp
  with r show ?case by (blast intro: reaches.direct)
next
  case (through x e m y)
  then show ?case by (blast intro: reaches.through)
qed

lemma reaches_roots_iff:
  "reaches st t x = (\<exists>r\<in>set (refNames t). reaches st (TypeReference r None) x)"
  using reaches_root reaches_from_root by blast

lemma reaches_name:
  "reaches st (TypeReference r None) x \<Longrightarrow>
   x = r \<or> (\<exists>e m. map_of st r = Some e \<and> m \<in> set (memberTypes e) \<and> reaches st m x)"
proof (induction rule: reaches.induct)
  case (direct x)
  then show ?case by simp
next
  case (through x e m y)
  from through.IH show ?case
  proof
    assume "x = r"
    with through.hyps have "map_of st r = Some e" "m \<in> set (memberTypes e)" "reaches st m y"
      by (auto intro: reaches.direct)
    then show ?thesis by blast
  next
    assume "\<exists>e m. map_of st r = Some e \<and> m \<in> set (memberTypes e) \<and> reaches st m x"
    then obtain e' m' where a: "map_of st r = Some e'" "m' \<in> set (memberTypes e')" "reaches st m' x" by blast
    from a(3) through.hyps(2,3,4) have "reaches st m' y" by (rule reaches.through)
    with a show ?thesis by blast
  qed
qed

lemma reaches_member:
  assumes e: "map_of st r = Some e" and m: "m \<in> set (memberTypes e)"
  shows "reaches st m x \<Longrightarrow> reaches st (TypeReference r None) x"
proof (induction rule: reaches.induct)
  case (direct x)
  from reaches_self e m direct show ?case by (rule reaches.through)
next
  case (through x e' m' y)
  then show ?case by (blast intro: reaches.through)
qed

lemma reaches_name_iff:
  "map_of st r = Some e \<Longrightarrow>
   reaches st (TypeReference r None) x = (x = r \<or> (\<exists>m\<in>set (memberTypes e). reaches st m x))"
  using reaches_name[of st r x] reaches_member[of st r e _ x] reaches_self[of st r] by auto

lemma reaches_name_unregistered:
  "map_of st r = None \<Longrightarrow> reaches st (TypeReference r None) x = (x = r)"
  using reaches_name[of st r x] reaches_self[of st r] by auto

lemma refNames_TypeReference:
  "set (refNames (TypeReference n ags)) =
   insert n (\<Union>a\<in>set (case ags of None \<Rightarrow> [] | Some as \<Rightarrow> as). set (refNames a))"
  by (cases ags) auto

lemma reaches_Array: "reaches st (ArrayType t) x = reaches st t x"
proof -
  have "reaches st (ArrayType t) x = (\<exists>r\<in>set (refNames (ArrayType t)). reaches st (TypeReference r None) x)"
    by (rule reaches_roots_iff)
  also have "\<dots> = (\<exists>r\<in>set (refNames t). reaches st (TypeReference r None) x)" by simp
  also have "\<dots> = reaches st t x" by (rule reaches_roots_iff[symmetric])
  finally show ?thesis .
qed

lemma reaches_Union: "reaches st (UnionType ts) x = (\<exists>t\<in>set ts. reaches st t x)"
proof -
  have "reaches st (UnionType ts) x = (\<exists>r\<in>set (refNames (UnionType ts)). reaches st (TypeReference r None) x)"
    by (rule reaches_roots_iff)
  also have "\<dots> = (\<exists>t\<in>set ts. \<exists>r\<in>set (refNames t). reaches st (TypeReference r None) x)" by auto
  also have "\<dots> = (\<exists>t\<in>set ts. reaches st t x)" by (simp only: reaches_roots_iff[symmetric])
  finally show ?thesis .
qed

lemma reaches_Ref:
  "reaches st (TypeReference n ags) x =
   (reaches st (TypeReference n None) x
    \<or> (\<exists>a\<in>set (case ags of None \<Rightarrow> [] | Some as \<Rightarrow> as). reaches st a x))"
proof -
  have "reaches st (TypeReference n ags) x =
        (\<exists>r\<in>set (refNames (TypeReference n ags)). reaches st (TypeReference r None) x)"
    by (rule reaches_roots_iff)
  also have "\<dots> = (reaches st (TypeReference n None) x
      \<or> (\<exists>a\<in>set (case ags of None \<Rightarrow> [] | Some as \<Rightarrow> as). \<exists>r\<in>set (refNames a). reaches st (TypeReference r None) x))"
    by (auto simp: refNames_TypeReference)
  also have "\<dots> = (reaches st (TypeReference n None) x
      \<or> (\<exists>a\<in>set (case ags of None \<Rightarrow> [] | Some as \<Rightarrow> as). reaches st a x))"
    by (simp only: reaches_roots_iff[symmetric])
  finally show ?thesis .
qed

lemma reaches_leaf: "refNames t = [] \<Longrightarrow> reaches st t x = False"
  by (simp add: reaches_roots_iff[of st t])

lemma reachSet_Array: "{x. reaches st (ArrayType t) x} = {x. reaches st t x}"
  by (simp only: reaches_Array)

lemma reachSet_Union: "{x. reaches st (UnionType ts) x} = (\<Union>t\<in>set ts. {x. reaches st t x})"
  by (auto simp only: reaches_Union)

lemma reachSet_Ref:
  assumes e: "map_of st n = Some e"
  shows "{x. reaches st (TypeReference n ags) x} =
         insert n ((\<Union>a\<in>set (case ags of None \<Rightarrow> [] | Some as \<Rightarrow> as). {x. reaches st a x})
                   \<union> (\<Union>m\<in>set (memberTypes e). {x. reaches st m x}))"
proof (rule set_eqI)
  fix x
  have "reaches st (TypeReference n ags) x =
        ((x = n \<or> (\<exists>m\<in>set (memberTypes e). reaches st m x))
         \<or> (\<exists>a\<in>set (case ags of None \<Rightarrow> [] | Some as \<Rightarrow> as). reaches st a x))"
    by (simp only: reaches_Ref[of st n ags x] reaches_name_iff[OF e])
  then show "(x \<in> {x. reaches st (TypeReference n ags) x}) =
        (x \<in> insert n ((\<Union>a\<in>set (case ags of None \<Rightarrow> [] | Some as \<Rightarrow> as). {x. reaches st a x})
                   \<union> (\<Union>m\<in>set (memberTypes e). {x. reaches st m x})))"
    by blast
qed

lemma reachSet_unregistered: "map_of st n = None \<Longrightarrow> n \<in> {x. reaches st (TypeReference n ags) x}"
  by (simp add: reaches.direct refNames_TypeReference)

lemma reachSet_leaf: "refNames t = [] \<Longrightarrow> {x. reaches st t x} = {}"
  by (simp add: reaches_leaf)

section \<open>Composing marks\<close>

lemma marked_refl: "marked st {} st"
  by (simp add: marked_def)

lemma marked_update:
  assumes e: "map_of st k = Some e"
  shows "marked st {k} (AList.update k (e\<lparr>relevant := True\<rparr>) st)"
  unfolding marked_def
proof (intro conjI allI)
  show "grows st (AList.update k (e\<lparr>relevant := True\<rparr>) st)" using e by (rule grows_update)
  fix x
  show "relevantIn (AList.update k (e\<lparr>relevant := True\<rparr>) st) x = (relevantIn st x \<or> x \<in> {k})"
    using e by (auto simp: relevantIn_def update_conv' split: option.splits)
qed

lemma marked_trans:
  assumes "marked a R b" and "marked b S c"
  shows "marked a (R \<union> S) c"
  using assms unfolding marked_def by (auto intro: grows_trans)

lemma outcome_Inr: "outcome st R (Inr st') = marked st R st'"
  by (simp add: outcome_def)

lemma outcome_then:
  assumes m: "marked st R st1" and o: "outcome st1 S r"
  shows "outcome st (R \<union> S) r"
proof (cases r)
  case (Inl err)
  with o obtain x where x: "x \<in> S" "err = UndefinedType x" "map_of st1 x = None"
    by (auto simp: outcome_def)
  from m have "grows st st1" by (simp add: marked_def)
  from grows_None_rev[OF this x(3)] x Inl show ?thesis by (auto simp: outcome_def)
next
  case (Inr st2)
  with o have "marked st1 S st2" by (simp add: outcome_def)
  with m Inr show ?thesis by (simp add: outcome_def marked_trans)
qed

lemma outcome_weaken_Inl:
  "outcome st R (Inl err) \<Longrightarrow> R \<subseteq> S \<Longrightarrow> outcome st S (Inl err)"
  by (auto simp: outcome_def)

section \<open>What \<open>markAsRelevant\<close> returns\<close>

lemma markEach_outcome:
  assumes all: "\<forall>st t r. markAsRelevant n st t = Some r \<longrightarrow> outcome st {x. reaches st t x} r"
  shows "markEach n st ts = Some r \<Longrightarrow> outcome st (\<Union>t\<in>set ts. {x. reaches st t x}) r"
proof (induction ts arbitrary: st r)
  case Nil
  then show ?case by (auto simp: outcome_def marked_refl)
next
  case (Cons t ts)
  from Cons.prems obtain r1 where r1: "markAsRelevant n st t = Some r1"
    by (auto split: option.splits)
  from all r1 have o1: "outcome st {x. reaches st t x} r1" by blast
  show ?case
  proof (cases r1)
    case (Inl err)
    with Cons.prems r1 have "r = Inl err" by simp
    with o1 Inl show ?thesis by (auto simp: outcome_def)
  next
    case (Inr st1)
    with Cons.prems r1 have rest: "markEach n st1 ts = Some r" by simp
    from o1 Inr have m1: "marked st {x. reaches st t x} st1" by (simp add: outcome_def)
    then have g: "grows st st1" by (simp add: marked_def)
    from Cons.IH[OF rest] have "outcome st1 (\<Union>t\<in>set ts. {x. reaches st1 t x}) r" .
    then have "outcome st1 (\<Union>t\<in>set ts. {x. reaches st t x}) r"
      by (simp only: reaches_grows_eq[OF g])
    from outcome_then[OF m1 this] show ?thesis by simp
  qed
qed

lemma markAsRelevant_outcome:
  "markAsRelevant n st t = Some r \<Longrightarrow> outcome st {x. reaches st t x} r"
proof (induction n arbitrary: st t r)
  case 0
  then show ?case by simp
next
  case (Suc n)
  have "\<forall>st t r. markAsRelevant n st t = Some r \<longrightarrow> outcome st {x. reaches st t x} r"
    using Suc.IH by blast
  note each = markEach_outcome[OF this]
  show ?case
  proof (cases t)
    case (ArrayType t')
    with Suc.prems have "markAsRelevant n st t' = Some r" by simp
    from Suc.IH[OF this] show ?thesis by (simp only: ArrayType reachSet_Array)
  next
    case (TypeReference nm ags)
    show ?thesis
    proof (cases "map_of st nm")
      case None
      with Suc.prems TypeReference have "r = Inl (UndefinedType nm)" by simp
      with None TypeReference show ?thesis
        using reachSet_unregistered[OF None, of ags] by (auto simp: outcome_def)
    next
      case (Some e)
      let ?st1 = "AList.update nm (e\<lparr>relevant := True\<rparr>) st"
      let ?as = "case ags of None \<Rightarrow> [] | Some as \<Rightarrow> as"
      from Suc.prems TypeReference Some obtain r1 where r1: "markEach n ?st1 ?as = Some r1"
        by (auto split: option.splits)
      have m0: "marked st {nm} ?st1" using Some by (rule marked_update)
      then have g0: "grows st ?st1" by (simp add: marked_def)
      from each[OF r1] have "outcome ?st1 (\<Union>a\<in>set ?as. {x. reaches ?st1 a x}) r1" .
      then have o1: "outcome ?st1 (\<Union>a\<in>set ?as. {x. reaches st a x}) r1"
        by (simp only: reaches_grows_eq[OF g0])
      show ?thesis
      proof (cases r1)
        case (Inl err)
        with Suc.prems TypeReference Some r1 have r: "r = Inl err" by simp
        from outcome_then[OF m0 o1] have "outcome st ({nm} \<union> (\<Union>a\<in>set ?as. {x. reaches st a x})) r1" .
        with Inl r show ?thesis
          by (auto simp: outcome_def TypeReference reachSet_Ref[OF Some])
      next
        case (Inr st2)
        with o1 have m1: "marked ?st1 (\<Union>a\<in>set ?as. {x. reaches st a x}) st2" by (simp add: outcome_def)
        then have g1: "grows ?st1 st2" by (simp add: marked_def)
        have "map_of ?st1 nm = Some (e\<lparr>relevant := True\<rparr>)" by (simp add: update_conv')
        from grows_Some[OF g1 this] obtain e2 where e2: "map_of st2 nm = Some e2" "members e2 = members e"
          by auto
        with Suc.prems TypeReference Some r1 Inr
        have r2: "markEach n st2 (memberTypes e) = Some r" by (simp add: memberTypes_def)
        have g02: "grows st st2" using g0 g1 by (rule grows_trans)
        from each[OF r2] have "outcome st2 (\<Union>m\<in>set (memberTypes e). {x. reaches st2 m x}) r" .
        then have o2: "outcome st2 (\<Union>m\<in>set (memberTypes e). {x. reaches st m x}) r"
          by (simp only: reaches_grows_eq[OF g02])
        have eq: "{x. reaches st t x} =
                  ({nm} \<union> (\<Union>a\<in>set ?as. {x. reaches st a x})) \<union> (\<Union>m\<in>set (memberTypes e). {x. reaches st m x})"
          unfolding TypeReference reachSet_Ref[OF Some] by blast
        from outcome_then[OF marked_trans[OF m0 m1] o2] show ?thesis by (simp only: eq)
      qed
    qed
  next
    case (UnionType ts)
    with Suc.prems have "markEach n st ts = Some r" by simp
    from each[OF this] show ?thesis by (simp only: UnionType reachSet_Union)
  qed (use Suc.prems in \<open>auto simp: outcome_def marked_refl reachSet_leaf\<close>)
qed

lemma markEach_outcome':
  assumes "markEach n st ts = Some r"
  shows "outcome st (\<Union>t\<in>set ts. {x. reaches st t x}) r"
proof -
  have "\<forall>st t r. markAsRelevant n st t = Some r \<longrightarrow> outcome st {x. reaches st t x} r"
    using markAsRelevant_outcome by blast
  from markEach_outcome[OF this assms] show ?thesis .
qed

lemma relevant_update_same: "relevant e \<Longrightarrow> e\<lparr>relevant := True\<rparr> = e"
  by (cases e) simp

lemma grows_between:
  assumes g2: "grows st st2" and m1: "marked st R st1" and r2: "\<forall>x\<in>R. relevantIn st2 x"
  shows "grows st1 st2"
  unfolding grows_def
proof
  fix k
  from m1 have g1: "grows st st1" and rel: "\<And>x. relevantIn st1 x = (relevantIn st x \<or> x \<in> R)"
    by (simp_all add: marked_def)
  show "case map_of st1 k of None \<Rightarrow> map_of st2 k = None
        | Some e \<Rightarrow> map_of st2 k = Some e \<or> map_of st2 k = Some (e\<lparr>relevant := True\<rparr>)"
  proof (cases "map_of st k")
    case None
    with grows_None[OF g1] grows_None[OF g2] show ?thesis by simp
  next
    case (Some e)
    from grows_at[OF g1, of k] Some
    have c1: "map_of st1 k = Some e \<or> map_of st1 k = Some (e\<lparr>relevant := True\<rparr>)" by simp
    from grows_at[OF g2, of k] Some
    have c2: "map_of st2 k = Some e \<or> map_of st2 k = Some (e\<lparr>relevant := True\<rparr>)" by simp
    from c1 show ?thesis
    proof
      assume "map_of st1 k = Some e"
      with c2 show ?thesis by simp
    next
      assume a: "map_of st1 k = Some (e\<lparr>relevant := True\<rparr>)"
      then have "relevantIn st1 k" by (simp add: relevantIn_def)
      with rel have "relevantIn st k \<or> k \<in> R" by simp
      then have "map_of st2 k = Some (e\<lparr>relevant := True\<rparr>)"
      proof
        assume "relevantIn st k"
        with Some have "relevant e" by (simp add: relevantIn_def)
        with c2 show ?thesis by (simp add: relevant_update_same)
      next
        assume "k \<in> R"
        with r2 have "relevantIn st2 k" by blast
        with c2 show ?thesis by (auto simp: relevantIn_def relevant_update_same)
      qed
      with a show ?thesis by simp
    qed
  qed
qed

lemma markEach_again:
  assumes all: "\<forall>st t st' st2. markAsRelevant n st t = Some (Inr st') \<longrightarrow> grows st st2
      \<longrightarrow> (\<forall>x. reaches st t x \<longrightarrow> relevantIn st2 x) \<longrightarrow> markAsRelevant n st2 t = Some (Inr st2)"
  shows "markEach n st ts = Some (Inr st') \<Longrightarrow> grows st st2
      \<Longrightarrow> \<forall>t\<in>set ts. \<forall>x. reaches st t x \<longrightarrow> relevantIn st2 x \<Longrightarrow> markEach n st2 ts = Some (Inr st2)"
proof (induction ts arbitrary: st)
  case Nil
  then show ?case by simp
next
  case (Cons t ts)
  from Cons.prems(1) obtain st1 where t: "markAsRelevant n st t = Some (Inr st1)"
      and rest: "markEach n st1 ts = Some (Inr st')"
    by (auto split: option.splits sum.splits)
  from Cons.prems(3) have rt: "\<forall>x. reaches st t x \<longrightarrow> relevantIn st2 x" by simp
  from all t Cons.prems(2) rt have again: "markAsRelevant n st2 t = Some (Inr st2)" by blast
  from markAsRelevant_outcome[OF t] have m1: "marked st {x. reaches st t x} st1" by (simp add: outcome_def)
  then have g1: "grows st st1" by (simp add: marked_def)
  from rt have "\<forall>x\<in>{x. reaches st t x}. relevantIn st2 x" by simp
  from grows_between[OF Cons.prems(2) m1 this] have g12: "grows st1 st2" .
  have "\<forall>t\<in>set ts. \<forall>x. reaches st1 t x \<longrightarrow> relevantIn st2 x"
    using Cons.prems(3) grows_reaches_rev[OF g1] by auto
  from Cons.IH[OF rest g12 this] again show ?case by simp
qed

lemma markAsRelevant_again:
  "markAsRelevant n st t = Some (Inr st') \<Longrightarrow> grows st st2
   \<Longrightarrow> \<forall>x. reaches st t x \<longrightarrow> relevantIn st2 x \<Longrightarrow> markAsRelevant n st2 t = Some (Inr st2)"
proof (induction n arbitrary: st t st' st2)
  case 0
  then show ?case by simp
next
  case (Suc n)
  have "\<forall>st t st' st2. markAsRelevant n st t = Some (Inr st') \<longrightarrow> grows st st2
      \<longrightarrow> (\<forall>x. reaches st t x \<longrightarrow> relevantIn st2 x) \<longrightarrow> markAsRelevant n st2 t = Some (Inr st2)"
    using Suc.IH by blast
  note each = markEach_again[OF this]
  show ?case
  proof (cases t)
    case (ArrayType t')
    with Suc.prems have "markAsRelevant n st t' = Some (Inr st')" by simp
    moreover from Suc.prems(3) have "\<forall>x. reaches st t' x \<longrightarrow> relevantIn st2 x"
      by (simp add: ArrayType reaches_Array)
    ultimately have "markAsRelevant n st2 t' = Some (Inr st2)" using Suc.prems(2) Suc.IH by blast
    then show ?thesis by (simp add: ArrayType)
  next
    case (TypeReference nm ags)
    let ?as = "case ags of None \<Rightarrow> [] | Some as \<Rightarrow> as"
    from Suc.prems(1) TypeReference obtain e where e: "map_of st nm = Some e"
      by (cases "map_of st nm") auto
    let ?st1 = "AList.update nm (e\<lparr>relevant := True\<rparr>) st"
    from Suc.prems(1) TypeReference e obtain sta where sta: "markEach n ?st1 ?as = Some (Inr sta)"
      by (auto split: option.splits sum.splits)
    have m0: "marked st {nm} ?st1" using e by (rule marked_update)
    then have g0: "grows st ?st1" by (simp add: marked_def)
    from markEach_outcome'[OF sta] have "marked ?st1 (\<Union>a\<in>set ?as. {x. reaches ?st1 a x}) sta"
      by (simp add: outcome_def)
    then have ma: "marked ?st1 (\<Union>a\<in>set ?as. {x. reaches st a x}) sta"
      by (simp only: reaches_grows_eq[OF g0])
    then have ga: "grows ?st1 sta" by (simp add: marked_def)
    have "map_of ?st1 nm = Some (e\<lparr>relevant := True\<rparr>)" by (simp add: update_conv')
    from grows_Some[OF ga this] obtain ea where ea: "map_of sta nm = Some ea" "members ea = members e"
      by auto
    with Suc.prems(1) TypeReference e sta
    have fin: "markEach n sta (memberTypes e) = Some (Inr st')" by (simp add: memberTypes_def)
    have reach: "\<And>x. reaches st t x = (x = nm \<or> (\<exists>a\<in>set ?as. reaches st a x) \<or> (\<exists>m\<in>set (memberTypes e). reaches st m x))"
      using reachSet_Ref[OF e, of ags] unfolding TypeReference by blast
    from Suc.prems(3) reach have rnm: "relevantIn st2 nm" by blast
    from grows_Some[OF Suc.prems(2) e] obtain e2 where e2: "map_of st2 nm = Some e2" "members e2 = members e"
      by auto
    with rnm have "relevant e2" by (simp add: relevantIn_def)
    then have "e2\<lparr>relevant := True\<rparr> = e2" by (rule relevant_update_same)
    with e2 have upd: "AList.update nm (e2\<lparr>relevant := True\<rparr>) st2 = st2" by (simp add: update_triv)
    from rnm have "\<forall>x\<in>{nm}. relevantIn st2 x" by simp
    from grows_between[OF Suc.prems(2) m0 this] have g12: "grows ?st1 st2" .
    have "\<forall>a\<in>set ?as. \<forall>x. reaches ?st1 a x \<longrightarrow> relevantIn st2 x"
      using Suc.prems(3) reach grows_reaches_rev[OF g0] by blast
    from each[OF sta g12 this] have again1: "markEach n st2 ?as = Some (Inr st2)" .
    have "\<forall>x\<in>{nm} \<union> (\<Union>a\<in>set ?as. {x. reaches st a x}). relevantIn st2 x"
      using Suc.prems(3) reach by blast
    from grows_between[OF Suc.prems(2) marked_trans[OF m0 ma] this] have ga2: "grows sta st2" .
    have g0a: "grows st sta" using g0 ga by (rule grows_trans)
    have "\<forall>m\<in>set (memberTypes e). \<forall>x. reaches sta m x \<longrightarrow> relevantIn st2 x"
      using Suc.prems(3) reach grows_reaches_rev[OF g0a] by blast
    from each[OF fin ga2 this] have again2: "markEach n st2 (memberTypes e) = Some (Inr st2)" .
    from e2 upd again1 again2 show ?thesis by (simp add: TypeReference memberTypes_def)
  next
    case (UnionType ts)
    with Suc.prems have "markEach n st ts = Some (Inr st')" by simp
    moreover from Suc.prems(3) have "\<forall>t\<in>set ts. \<forall>x. reaches st t x \<longrightarrow> relevantIn st2 x"
      by (auto simp: UnionType reaches_Union)
    ultimately have "markEach n st2 ts = Some (Inr st2)" using Suc.prems(2) each by blast
    then show ?thesis by (simp add: UnionType)
  qed simp_all
qed

lemma markAsRelevant_idempotent:
  assumes "markAsRelevant n st t = Some (Inr st')"
  shows "markAsRelevant n st' t = Some (Inr st')"
proof -
  from markAsRelevant_outcome[OF assms] have m: "marked st {x. reaches st t x} st'" by (simp add: outcome_def)
  then have "grows st st'" "\<forall>x. reaches st t x \<longrightarrow> relevantIn st' x" by (simp_all add: marked_def)
  with assms show ?thesis by (rule markAsRelevant_again)
qed

section \<open>A depth that suffices when the references have no cycle\<close>

lemma grows_sized:
  assumes g: "grows st st'" and s: "sized M st"
  shows "sized M st'"
  unfolding sized_def
proof (intro allI impI ballI)
  fix k e' m
  assume k: "map_of st' k = Some e'" and m: "m \<in> set (memberTypes e')"
  from grows_Some_rev[OF g k] obtain e where e: "map_of st k = Some e" "members e' = members e" by blast
  with m have "m \<in> set (memberTypes e)" by (simp add: memberTypes_def)
  with s e show "size m \<le> M" unfolding sized_def by blast
qed

lemma sized_memberBound: "sized (memberBound st) st"
  unfolding sized_def memberBound_def
proof (intro allI impI ballI)
  fix k e m
  assume k: "map_of st k = Some e" and m: "m \<in> set (memberTypes e)"
  from k have "(k, e) \<in> set st" by (rule map_of_SomeD)
  with m have "size m \<in> size ` (\<Union>ke\<in>set st. set (memberTypes (snd ke)))" by force
  then show "size m \<le> Max (insert 0 (size ` (\<Union>ke\<in>set st. set (memberTypes (snd ke)))))"
    by (intro Max_ge) auto
qed

lemma nameBound_ge: "x \<in> set (refNames t) \<Longrightarrow> Suc (rk x) \<le> nameBound rk t"
  unfolding nameBound_def by (intro Max_ge) auto

lemma nameBound_le: "\<forall>x\<in>set (refNames t). Suc (rk x) \<le> b \<Longrightarrow> nameBound rk t \<le> b"
  unfolding nameBound_def by (subst Max_le_iff) auto

lemma nameBound_mono: "set (refNames a) \<subseteq> set (refNames t) \<Longrightarrow> nameBound rk a \<le> nameBound rk t"
  by (rule nameBound_le) (auto dest: nameBound_ge)

lemma enough_each:
  assumes all: "\<forall>st t. ranked rk st \<longrightarrow> sized M st \<longrightarrow> enoughFuel rk M t \<le> n
                  \<longrightarrow> (\<exists>r. markAsRelevant n st t = Some r)"
  shows "ranked rk st \<Longrightarrow> sized M st \<Longrightarrow> \<forall>t\<in>set ts. enoughFuel rk M t \<le> n
         \<Longrightarrow> \<exists>r. markEach n st ts = Some r"
proof (induction ts arbitrary: st)
  case Nil
  show ?case by simp
next
  case (Cons t ts)
  from Cons.prems(3) have "enoughFuel rk M t \<le> n" by simp
  with all Cons.prems(1,2) obtain r1 where r1: "markAsRelevant n st t = Some r1" by blast
  show ?case
  proof (cases r1)
    case (Inl err)
    with r1 show ?thesis by simp
  next
    case (Inr st1)
    from markAsRelevant_outcome[OF r1] Inr have g: "grows st st1" by (simp add: outcome_def marked_def)
    have i1: "ranked rk st1" using g Cons.prems(1) by (rule grows_ranked)
    have i2: "sized M st1" using g Cons.prems(2) by (rule grows_sized)
    from Cons.prems(3) have "\<forall>t\<in>set ts. enoughFuel rk M t \<le> n" by simp
    from Cons.IH[OF i1 i2 this] obtain r where "markEach n st1 ts = Some r" by blast
    with r1 Inr show ?thesis by simp
  qed
qed

lemma size_in_list: "a \<in> set as \<Longrightarrow> size a \<le> size_list size as"
  by (induction as) auto

lemma enough_fuel:
  "ranked rk st \<Longrightarrow> sized M st \<Longrightarrow> enoughFuel rk M t \<le> n \<Longrightarrow> \<exists>r. markAsRelevant n st t = Some r"
proof (induction n arbitrary: st t)
  case 0
  then show ?case by (simp add: enoughFuel_def)
next
  case (Suc n)
  have "\<forall>st t. ranked rk st \<longrightarrow> sized M st \<longrightarrow> enoughFuel rk M t \<le> n
                  \<longrightarrow> (\<exists>r. markAsRelevant n st t = Some r)"
    using Suc.IH by blast
  note each = enough_each[OF this]
  show ?case
  proof (cases t)
    case (ArrayType t')
    have "enoughFuel rk M t' \<le> n" using Suc.prems(3) by (simp add: ArrayType enoughFuel_def nameBound_def)
    from Suc.IH[OF Suc.prems(1,2) this] show ?thesis by (simp add: ArrayType)
  next
    case (TypeReference nm ags)
    let ?as = "case ags of None \<Rightarrow> [] | Some as \<Rightarrow> as"
    show ?thesis
    proof (cases "map_of st nm")
      case None
      then show ?thesis by (simp add: TypeReference)
    next
      case (Some e)
      let ?st1 = "AList.update nm (e\<lparr>relevant := True\<rparr>) st"
      have g0: "grows st ?st1" using Some by (rule grows_update)
      have i1: "ranked rk ?st1" using g0 Suc.prems(1) by (rule grows_ranked)
      have i2: "sized M ?st1" using g0 Suc.prems(2) by (rule grows_sized)
      have fa: "\<forall>a\<in>set ?as. enoughFuel rk M a \<le> n"
      proof
        fix a assume a: "a \<in> set ?as"
        then have sub: "set (refNames a) \<subseteq> set (refNames t)"
          by (auto simp: TypeReference refNames_TypeReference)
        from a have sz: "size a < size t"
          by (cases ags) (auto simp: TypeReference dest: size_in_list)
        from nameBound_mono[OF sub] have "nameBound rk a * Suc M \<le> nameBound rk t * Suc M"
          by (rule mult_le_mono1)
        with sz Suc.prems(3) show "enoughFuel rk M a \<le> n" unfolding enoughFuel_def by linarith
      qed
      from each[OF i1 i2 fa] obtain r1 where r1: "markEach n ?st1 ?as = Some r1" by blast
      show ?thesis
      proof (cases r1)
        case (Inl err)
        with Some r1 show ?thesis by (simp add: TypeReference)
      next
        case (Inr st2)
        from markEach_outcome'[OF r1] Inr have g1: "grows ?st1 st2" by (simp add: outcome_def marked_def)
        have "map_of ?st1 nm = Some (e\<lparr>relevant := True\<rparr>)" by (simp add: update_conv')
        from grows_Some[OF g1 this] obtain e2 where e2: "map_of st2 nm = Some e2" "members e2 = members e"
          by auto
        have j1: "ranked rk st2" using g1 i1 by (rule grows_ranked)
        have j2: "sized M st2" using g1 i2 by (rule grows_sized)
        have fm: "\<forall>m\<in>set (memberTypes e). enoughFuel rk M m \<le> n"
        proof
          fix m assume m: "m \<in> set (memberTypes e)"
          from Suc.prems(2) Some m have sz: "size m \<le> M" unfolding sized_def by blast
          from Suc.prems(1) Some m have "\<forall>x\<in>set (refNames m). rk x < rk nm" unfolding ranked_def by blast
          then have "\<forall>x\<in>set (refNames m). Suc (rk x) \<le> rk nm" by (simp add: Suc_le_eq)
          then have nb: "nameBound rk m \<le> rk nm" by (rule nameBound_le)
          have "Suc (rk nm) \<le> nameBound rk t"
            by (rule nameBound_ge) (simp add: TypeReference refNames_TypeReference)
          then have a1: "Suc (rk nm) * Suc M \<le> nameBound rk t * Suc M" by (rule mult_le_mono1)
          from nb have a2: "nameBound rk m * Suc M \<le> rk nm * Suc M" by (rule mult_le_mono1)
          have a3: "Suc (rk nm) * Suc M = Suc M + rk nm * Suc M" by simp
          from a1 a2 a3 sz Suc.prems(3) show "enoughFuel rk M m \<le> n" unfolding enoughFuel_def by linarith
        qed
        from each[OF j1 j2 fm] obtain r where "markEach n st2 (memberTypes e) = Some r" by blast
        with Some r1 Inr e2 show ?thesis by (simp add: TypeReference memberTypes_def)
      qed
    qed
  next
    case (UnionType ts)
    have "\<forall>u\<in>set ts. enoughFuel rk M u \<le> n"
    proof
      fix u assume u: "u \<in> set ts"
      then have sub: "set (refNames u) \<subseteq> set (refNames t)" by (auto simp: UnionType)
      from u have sz: "size u < size t" by (auto simp: UnionType dest: size_in_list)
      from nameBound_mono[OF sub] have "nameBound rk u * Suc M \<le> nameBound rk t * Suc M"
        by (rule mult_le_mono1)
      with sz Suc.prems(3) show "enoughFuel rk M u \<le> n" unfolding enoughFuel_def by linarith
    qed
    from each[OF Suc.prems(1,2) this] show ?thesis by (simp add: UnionType)
  qed simp_all
qed

lemma closed_reaches:
  assumes c: "closed st" and r: "\<forall>r\<in>set (refNames t). map_of st r \<noteq> None"
  shows "reaches st t x \<Longrightarrow> map_of st x \<noteq> None"
proof (induction rule: reaches.induct)
  case (direct x)
  with r show ?case by blast
next
  case (through x e m y)
  with c show ?case unfolding closed_def by blast
qed


section \<open>Marking a pair of types\<close>

lemma cyclicTable_eq:
  "cyclicTable =
   [(''A'', \<lparr>etype = TypeEntry, ename = None, efileName = None, ecomment = None, emethods = None, eargs = None,
       members = [(''b'', \<lparr>desc = Schema None None None None (Some ''#/components/schemas/B'') None None None None None,
                          mtype = TypeReference ''B'' None, optional = False\<rparr>)],
       relevant = False, def = None\<rparr>),
    (''B'', \<lparr>etype = TypeEntry, ename = None, efileName = None, ecomment = None, emethods = None, eargs = None,
       members = [(''a'', \<lparr>desc = Schema None None None None (Some ''#/components/schemas/A'') None None None None None,
                          mtype = TypeReference ''A'' None, optional = False\<rparr>)],
       relevant = False, def = None\<rparr>)]"
  by code_simp

lemma acyclicTable_eq:
  "acyclicTable =
   [(''A'', \<lparr>etype = TypeEntry, ename = None, efileName = None, ecomment = None, emethods = None, eargs = None,
       members = [(''b'', \<lparr>desc = Schema None None None None (Some ''#/components/schemas/B'') None None None None None,
                          mtype = TypeReference ''B'' None, optional = False\<rparr>)],
       relevant = False, def = None\<rparr>),
    (''B'', \<lparr>etype = TypeEntry, ename = None, efileName = None, ecomment = None, emethods = None, eargs = None,
       members = [(''n'', \<lparr>desc = Schema (Some ''number'') None None None None None None None None None,
                          mtype = TokenObject NumberKeyword, optional = False\<rparr>)],
       relevant = False, def = None\<rparr>)]"
  by code_simp

lemma cyclic_shape:
  assumes g: "grows cyclicTable st"
  shows "\<exists>e. map_of st ''A'' = Some e \<and> members e = [(''b'', \<lparr>desc = Schema None None None None (Some ''#/components/schemas/B'') None None None None None,
                          mtype = TypeReference ''B'' None, optional = False\<rparr>)]"
    and "\<exists>e. map_of st ''B'' = Some e \<and> members e = [(''a'', \<lparr>desc = Schema None None None None (Some ''#/components/schemas/A'') None None None None None,
                          mtype = TypeReference ''A'' None, optional = False\<rparr>)]"
proof -
  have a: "map_of cyclicTable ''A'' = Some (snd (cyclicTable ! 0))" by (simp add: cyclicTable_eq)
  have b: "map_of cyclicTable ''B'' = Some (snd (cyclicTable ! 1))" by (simp add: cyclicTable_eq)
  from grows_Some[OF g a] show "\<exists>e. map_of st ''A'' = Some e \<and> members e = [(''b'', \<lparr>desc = Schema None None None None (Some ''#/components/schemas/B'') None None None None None,
                          mtype = TypeReference ''B'' None, optional = False\<rparr>)]"
    by (auto simp: cyclicTable_eq)
  from grows_Some[OF g b] show "\<exists>e. map_of st ''B'' = Some e \<and> members e = [(''a'', \<lparr>desc = Schema None None None None (Some ''#/components/schemas/A'') None None None None None,
                          mtype = TypeReference ''A'' None, optional = False\<rparr>)]"
    by (auto simp: cyclicTable_eq)
qed

lemma cyclic_diverges:
  "grows cyclicTable st \<Longrightarrow>
   markAsRelevant n st (TypeReference ''A'' None) = None \<and> markAsRelevant n st (TypeReference ''B'' None) = None"
proof (induction n arbitrary: st)
  case 0
  show ?case by simp
next
  case (Suc n)
  have step: "markAsRelevant (Suc n) st (TypeReference x None) = None"
    if x: "\<exists>e. map_of st x = Some e \<and> members e = [(k, \<lparr>desc = d, mtype = TypeReference y None, optional = False\<rparr>)]"
      and y: "\<And>st'. grows cyclicTable st' \<Longrightarrow> markAsRelevant n st' (TypeReference y None) = None"
    for x y k d
  proof -
    from x obtain e where e: "map_of st x = Some e"
      "members e = [(k, \<lparr>desc = d, mtype = TypeReference y None, optional = False\<rparr>)]" by blast
    let ?st1 = "AList.update x (e\<lparr>relevant := True\<rparr>) st"
    have "grows st ?st1" using e(1) by (rule grows_update)
    with Suc.prems have "grows cyclicTable ?st1" by (rule grows_trans)
    from y[OF this] have "markAsRelevant n ?st1 (TypeReference y None) = None" .
    with e show ?thesis by (simp add: update_conv')
  qed
  have "markAsRelevant (Suc n) st (TypeReference ''A'' None) = None"
    by (rule step[OF cyclic_shape(1)[OF Suc.prems]]) (use Suc.IH in blast)
  moreover have "markAsRelevant (Suc n) st (TypeReference ''B'' None) = None"
    by (rule step[OF cyclic_shape(2)[OF Suc.prems]]) (use Suc.IH in blast)
  ultimately show ?case by simp
qed


lemma grows_refersTo: "grows st st' \<Longrightarrow> refersTo st a b \<Longrightarrow> refersTo st' a b"
  unfolding refersTo_def by (metis grows_Some memberTypes_def)

lemma markAsRelevant_grows:
  "markAsRelevant n st t = Some (Inr st') \<Longrightarrow> grows st st'"
  using markAsRelevant_outcome[of n st t "Inr st'"] by (simp add: outcome_def marked_def)

lemma markEach_grows:
  "markEach n st ts = Some (Inr st') \<Longrightarrow> grows st st'"
  using markEach_outcome'[of n st ts "Inr st'"] by (simp add: outcome_def marked_def)

text \<open>When a loop of \<open>markEach\<close> returns, every call in it has returned.\<close>

lemma markEach_element:
  "markEach k st ts = Some (Inr st') \<Longrightarrow> t \<in> set ts \<Longrightarrow>
   \<exists>s1 s2. grows st s1 \<and> markAsRelevant k s1 t = Some (Inr s2)"
proof (induction ts arbitrary: st)
  case Nil
  then show ?case by simp
next
  case (Cons u us)
  from Cons.prems(1) obtain s where u: "markAsRelevant k st u = Some (Inr s)"
      and us: "markEach k s us = Some (Inr st')"
    by (auto split: option.splits sum.splits)
  show ?case
  proof (cases "t = u")
    case True
    with u show ?thesis using grows_refl by blast
  next
    case False
    with Cons.prems(2) have "t \<in> set us" by simp
    from Cons.IH[OF us this] obtain s1 s2 where "grows s s1" "markAsRelevant k s1 t = Some (Inr s2)" by blast
    with markAsRelevant_grows[OF u] show ?thesis by (blast intro: grows_trans)
  qed
qed

text \<open>When \<open>markAsRelevant\<close> returns for a reference, it has returned for every member type
  of the entry, one level deeper.\<close>

lemma markAsRelevant_member:
  assumes s: "markAsRelevant (Suc k) st (TypeReference a ags) = Some (Inr st')"
      and e: "map_of st a = Some e" and m: "m \<in> set (memberTypes e)"
  shows "\<exists>s1 s2. grows st s1 \<and> markAsRelevant k s1 m = Some (Inr s2)"
proof -
  let ?st1 = "AList.update a (e\<lparr>relevant := True\<rparr>) st"
  let ?as = "case ags of None \<Rightarrow> [] | Some as \<Rightarrow> as"
  from s e obtain sta where sta: "markEach k ?st1 ?as = Some (Inr sta)"
    by (auto split: option.splits sum.splits)
  have g0: "grows st ?st1" using e by (rule grows_update)
  from markEach_grows[OF sta] have ga: "grows ?st1 sta" .
  have "map_of ?st1 a = Some (e\<lparr>relevant := True\<rparr>)" by (simp add: update_conv')
  from grows_Some[OF ga this] obtain ea where ea: "map_of sta a = Some ea" "members ea = members e" by auto
  with s e sta have "markEach k sta (memberTypes e) = Some (Inr st')" by (simp add: memberTypes_def)
  from markEach_element[OF this m] obtain s1 s2 where "grows sta s1" "markAsRelevant k s1 m = Some (Inr s2)"
    by blast
  with g0 ga show ?thesis by (blast intro: grows_trans)
qed

text \<open>When \<open>markAsRelevant\<close> returns for a node, it has returned for a reference to every
  name the node refers to, at the same depth or deeper.\<close>

lemma markAsRelevant_descend:
  "markAsRelevant k st m = Some (Inr st') \<Longrightarrow> x \<in> set (refNames m) \<Longrightarrow>
   \<exists>k' s1 ags s2. k' \<le> k \<and> grows st s1 \<and> markAsRelevant k' s1 (TypeReference x ags) = Some (Inr s2)"
proof (induction k arbitrary: st m st')
  case 0
  then show ?case by simp
next
  case (Suc k)
  have each: "\<exists>k' s1 ags s2. k' \<le> Suc k \<and> grows st s1 \<and> markAsRelevant k' s1 (TypeReference x ags) = Some (Inr s2)"
    if ts: "markEach k s0 ts = Some (Inr sx)" and g: "grows st s0" and t: "t \<in> set ts" and xt: "x \<in> set (refNames t)"
    for s0 ts sx t
  proof -
    from markEach_element[OF ts t] obtain s1 s2 where a: "grows s0 s1" "markAsRelevant k s1 t = Some (Inr s2)"
      by blast
    from Suc.IH[OF a(2) xt] obtain k' s1' ags s2' where
        b: "k' \<le> k" "grows s1 s1'" "markAsRelevant k' s1' (TypeReference x ags) = Some (Inr s2')" by blast
    from g a(1) b(2) have "grows st s1'" by (blast intro: grows_trans)
    with b show ?thesis by (meson le_SucI)
  qed
  show ?case
  proof (cases m)
    case (ArrayType t')
    with Suc.prems have "markAsRelevant k st t' = Some (Inr st')" "x \<in> set (refNames t')" by simp_all
    from Suc.IH[OF this] show ?thesis by (meson le_SucI)
  next
    case (TypeReference y ags)
    show ?thesis
    proof (cases "x = y")
      case True
      with Suc.prems(1) TypeReference show ?thesis using grows_refl by blast
    next
      case False
      let ?as = "case ags of None \<Rightarrow> [] | Some as \<Rightarrow> as"
      from False Suc.prems(2) TypeReference obtain a' where a': "a' \<in> set ?as" "x \<in> set (refNames a')"
        by (auto simp: refNames_TypeReference)
      from Suc.prems(1) TypeReference obtain e where e: "map_of st y = Some e"
        by (cases "map_of st y") auto
      let ?st1 = "AList.update y (e\<lparr>relevant := True\<rparr>) st"
      from Suc.prems(1) TypeReference e obtain sta where sta: "markEach k ?st1 ?as = Some (Inr sta)"
        by (auto split: option.splits sum.splits)
      have "grows st ?st1" using e by (rule grows_update)
      from each[OF sta this a'] show ?thesis .
    qed
  next
    case (UnionType ts)
    with Suc.prems obtain t where t: "t \<in> set ts" "x \<in> set (refNames t)" by auto
    from Suc.prems(1) UnionType have "markEach k st ts = Some (Inr st')" by simp
    from each[OF this grows_refl t] show ?thesis .
  qed (use Suc.prems in auto)
qed

lemma cyclic_never_returns:
  "refersTo st a b \<Longrightarrow> refersTo st b a \<Longrightarrow> markAsRelevant n st (TypeReference a ags) \<noteq> Some (Inr st')"
proof (induction n arbitrary: st ags st' rule: less_induct)
  case (less n)
  show ?case
  proof
    assume s: "markAsRelevant n st (TypeReference a ags) = Some (Inr st')"
    then obtain k where n: "n = Suc k" by (cases n) auto
    from less.prems(1) obtain e m where e: "map_of st a = Some e" "m \<in> set (memberTypes e)" "b \<in> set (refNames m)"
      unfolding refersTo_def by blast
    from markAsRelevant_member[OF s[unfolded n] e(1,2)] obtain s1 s2 where
        a1: "grows st s1" "markAsRelevant k s1 m = Some (Inr s2)" by blast
    from markAsRelevant_descend[OF a1(2) e(3)] obtain k' s3 agsb s4 where
        a2: "k' \<le> k" "grows s1 s3" "markAsRelevant k' s3 (TypeReference b agsb) = Some (Inr s4)" by blast
    from a2(3) obtain j where k': "k' = Suc j" by (cases k') auto
    have g3: "grows st s3" using a1(1) a2(2) by (rule grows_trans)
    from grows_refersTo[OF g3 less.prems(2)] obtain e' m' where
        e': "map_of s3 b = Some e'" "m' \<in> set (memberTypes e')" "a \<in> set (refNames m')"
      unfolding refersTo_def by blast
    from markAsRelevant_member[OF a2(3)[unfolded k'] e'(1,2)] obtain s5 s6 where
        a3: "grows s3 s5" "markAsRelevant j s5 m' = Some (Inr s6)" by blast
    from markAsRelevant_descend[OF a3(2) e'(3)] obtain j' s7 agsa s8 where
        a4: "j' \<le> j" "grows s5 s7" "markAsRelevant j' s7 (TypeReference a agsa) = Some (Inr s8)" by blast
    have g7: "grows st s7" using g3 a3(1) a4(2) by (blast intro: grows_trans)
    from a4(1) k' a2(1) n have lt: "j' < n" by simp
    from less.IH[OF lt grows_refersTo[OF g7 less.prems(1)] grows_refersTo[OF g7 less.prems(2)]] a4(3)
    show False by blast
  qed
qed


lemma acyclic_ranked: "ranked sampleRank acyclicTable"
  by (auto simp: ranked_def acyclicTable_eq memberTypes_def sampleRank_def split: if_splits)

lemma acyclic_closed: "closed acyclicTable"
  by (auto simp: closed_def acyclicTable_eq memberTypes_def split: if_splits)


lemma itemsLoop_throw_genSources:
  "itemsLoop c n st items = Some (Inl e) \<Longrightarrow> \<exists>e'. genSources c n st items = Some (noFiles, Some e')"
  by (simp add: genSources_def split: sum.splits)


section \<open>References to names that are not registered\<close>


lemma translate_Color:
  "typeToJSON sampleCollaborators acyclicTable (ArrayType (TypeReference ''Color'' None)) [] None
   = Inr (Some (arraySchema (Some (refSchema ''#/definitions/Color''))))"
  by (simp add: decorate_def sampleCollaborators_def maptypeDescName_def theDocRoot_def wantsExpand_def refSchema_def)


section \<open>What the loop over the endpoints marks\<close>

lemma endpointReaches_grows_rev:
  "grows st st' \<Longrightarrow> endpointReaches st' item x \<Longrightarrow> endpointReaches st item x"
  unfolding endpointReaches_def by (blast intro: grows_reaches_rev)

lemma parameterLoop_marks:
  "parameterLoop c n st ps opts props = Some (Inr (props', st')) \<Longrightarrow>
   grows st st' \<and> (\<forall>x. relevantIn st' x \<longrightarrow> relevantIn st x \<or> (\<exists>p\<in>set ps. reaches st (snd p) x))"
proof (induction ps arbitrary: st props)
  case Nil
  then show ?case by simp
next
  case (Cons p ps)
  show ?case
  proof (cases "typeToJSON c st (snd p) [] opts")
    case (Inl e)
    with Cons.prems show ?thesis by simp
  next
    case (Inr j)
    show ?thesis
    proof (cases j)
      case None
      with Inr Cons.prems have "parameterLoop c n st ps opts props = Some (Inr (props', st'))" by simp
      from Cons.IH[OF this] show ?thesis by auto
    next
      case (Some jsonValue)
      with Inr Cons.prems obtain st1 where m: "markAsRelevant n st (snd p) = Some (Inr st1)"
          and rest: "parameterLoop c n st1 ps opts (AList.update (fst p) jsonValue props) = Some (Inr (props', st'))"
        by (auto split: option.splits sum.splits)
      from markAsRelevant_outcome[OF m] have mk: "marked st {x. reaches st (snd p) x} st1"
        by (simp add: outcome_def)
      then have g: "grows st st1" by (simp add: marked_def)
      from Cons.IH[OF rest] have g1: "grows st1 st'"
        and r1: "\<forall>x. relevantIn st' x \<longrightarrow> relevantIn st1 x \<or> (\<exists>p\<in>set ps. reaches st1 (snd p) x)" by simp_all
      have "grows st st'" using g g1 by (rule grows_trans)
      moreover have "\<forall>x. relevantIn st' x \<longrightarrow> relevantIn st x \<or> (\<exists>q\<in>set (p # ps). reaches st (snd q) x)"
      proof (intro allI impI)
        fix x assume "relevantIn st' x"
        with r1 have "relevantIn st1 x \<or> (\<exists>p\<in>set ps. reaches st1 (snd p) x)" by blast
        then show "relevantIn st x \<or> (\<exists>q\<in>set (p # ps). reaches st (snd q) x)"
        proof
          assume "relevantIn st1 x"
          with mk have "relevantIn st x \<or> reaches st (snd p) x" by (simp add: marked_def)
          then show ?thesis by auto
        next
          assume "\<exists>p\<in>set ps. reaches st1 (snd p) x"
          then obtain q where "q \<in> set ps" "reaches st1 (snd q) x" by blast
          with grows_reaches_rev[OF g] show ?thesis by auto
        qed
      qed
      ultimately show ?thesis by simp
    qed
  qed
qed

lemma parameterListToJSON_marks:
  assumes "parameterListToJSON c n st item opts = Some (Inr (x, st'))"
  shows "grows st st' \<and> (\<forall>k. relevantIn st' k \<longrightarrow> relevantIn st k \<or> endpointReaches st item k)"
proof -
  from assms obtain props st1 rt where
      lp: "parameterLoop c n st (methodParameters item) opts [] = Some (Inr (props, st1))"
      and rt: "returnType item = Some rt"
      and m: "markAsRelevant n st1 rt = Some (Inr st')"
    by (auto simp: parameterListToJSON_def split: option.splits sum.splits prod.splits)
  from parameterLoop_marks[OF lp] have g: "grows st st1"
    and r: "\<forall>x. relevantIn st1 x \<longrightarrow> relevantIn st x \<or> (\<exists>p\<in>set (methodParameters item). reaches st (snd p) x)"
    by simp_all
  from markAsRelevant_outcome[OF m] have mk: "marked st1 {x. reaches st1 rt x} st'" by (simp add: outcome_def)
  then have g1: "grows st1 st'" by (simp add: marked_def)
  have "grows st st'" using g g1 by (rule grows_trans)
  moreover have "\<forall>k. relevantIn st' k \<longrightarrow> relevantIn st k \<or> endpointReaches st item k"
  proof (intro allI impI)
    fix k assume "relevantIn st' k"
    with mk have "relevantIn st1 k \<or> reaches st1 rt k" by (simp add: marked_def)
    then show "relevantIn st k \<or> endpointReaches st item k"
    proof
      assume "relevantIn st1 k"
      with r show ?thesis by (auto simp: endpointReaches_def)
    next
      assume "reaches st1 rt k"
      with grows_reaches_rev[OF g] rt show ?thesis by (auto simp: endpointReaches_def)
    qed
  qed
  ultimately show ?thesis by simp
qed

lemma itemsLoop_marks:
  "itemsLoop c n st its = Some (Inr (entries, st')) \<Longrightarrow>
   grows st st' \<and> (\<forall>k. relevantIn st' k \<longrightarrow> relevantIn st k \<or> (\<exists>item\<in>set its. endpointReaches st item k))"
proof (induction its arbitrary: st entries)
  case Nil
  then show ?case by simp
next
  case (Cons item its)
  from Cons.prems obtain x st1 rest where
      p: "parameterListToJSON c n st item None = Some (Inr (x, st1))"
      and l: "itemsLoop c n st1 its = Some (Inr (rest, st'))"
    by (auto split: option.splits sum.splits prod.splits)
  from parameterListToJSON_marks[OF p] have g: "grows st st1"
    and r: "\<forall>k. relevantIn st1 k \<longrightarrow> relevantIn st k \<or> endpointReaches st item k" by simp_all
  from Cons.IH[OF l] have g1: "grows st1 st'"
    and r1: "\<forall>k. relevantIn st' k \<longrightarrow> relevantIn st1 k \<or> (\<exists>i\<in>set its. endpointReaches st1 i k)" by simp_all
  have "grows st st'" using g g1 by (rule grows_trans)
  moreover have "\<forall>k. relevantIn st' k \<longrightarrow> relevantIn st k \<or> (\<exists>i\<in>set (item # its). endpointReaches st i k)"
  proof (intro allI impI)
    fix k assume "relevantIn st' k"
    with r1 have "relevantIn st1 k \<or> (\<exists>i\<in>set its. endpointReaches st1 i k)" by blast
    then show "relevantIn st k \<or> (\<exists>i\<in>set (item # its). endpointReaches st i k)"
    proof
      assume "relevantIn st1 k"
      with r show ?thesis by auto
    next
      assume "\<exists>i\<in>set its. endpointReaches st1 i k"
      with endpointReaches_grows_rev[OF g] show ?thesis by auto
    qed
  qed
  ultimately show ?case by simp
qed

lemma relevantType_update_def:
  "map_of st i = Some e \<Longrightarrow> relevantType (AList.update i (e\<lparr>def := d\<rparr>) st) k = relevantType st k"
  by (simp add: relevantType_def update_conv')

lemma definitionsLoop_keys:
  "definitionsLoop ks st res = (defs, st2) \<Longrightarrow>
   (map_of defs k \<noteq> None) = (map_of res k \<noteq> None \<or> (k \<in> set ks \<and> relevantType st k))"
proof (induction ks arbitrary: st res)
  case Nil
  then show ?case by simp
next
  case (Cons ikey ks)
  show ?case
  proof (cases "map_of st ikey")
    case None
    with Cons.prems have "definitionsLoop ks st res = (defs, st2)" by simp
    from Cons.IH[OF this] None show ?thesis by (auto simp: relevantType_def)
  next
    case (Some e)
    show ?thesis
    proof (cases "etype e = TypeEntry \<and> relevant e")
      case True
      with Some Cons.prems
      have "definitionsLoop ks (AList.update ikey (e\<lparr>def := Some (definitionOf e)\<rparr>) st)
              (AList.update ikey (definitionOf e) res) = (defs, st2)" by simp
      from Cons.IH[OF this] have "(map_of defs k \<noteq> None) =
          (map_of (AList.update ikey (definitionOf e) res) k \<noteq> None \<or> (k \<in> set ks \<and> relevantType st k))"
        by (simp only: relevantType_update_def[OF Some])
      moreover from Some True have "relevantType st ikey" by (simp add: relevantType_def)
      ultimately show ?thesis by (auto simp: update_conv')
    next
      case False
      with Some Cons.prems have "definitionsLoop ks st res = (defs, st2)" by auto
      from Cons.IH[OF this] Some False show ?thesis by (auto simp: relevantType_def)
    qed
  qed
qed

lemma symtabToSchemaDefinitions_keys:
  assumes "symtabToSchemaDefinitions st = (defs, st2)"
  shows "(map_of defs k \<noteq> None) = relevantType st k"
proof -
  from assms have "definitionsLoop (map fst st) st [] = (defs, st2)"
    by (simp add: symtabToSchemaDefinitions_def)
  from definitionsLoop_keys[OF this, of k]
  have "(map_of defs k \<noteq> None) = (k \<in> set (map fst st) \<and> relevantType st k)" by simp
  moreover have "relevantType st k \<Longrightarrow> k \<in> set (map fst st)"
    by (auto simp: relevantType_def split: option.splits dest: map_of_SomeD intro: rev_image_eqI)
  ultimately show ?thesis by auto
qed

lemma genSources_checkFile:
  assumes "genSources c n st its = Some (fs, err)" and "checkFile fs = Some cm"
  shows "\<exists>entries st1 st2. itemsLoop c n st its = Some (Inr (entries, st1))
           \<and> symtabToSchemaDefinitions st1 = (definitions cm, st2)
           \<and> methodEntries cm = entries
           \<and> (\<forall>sd. swaggerFile fs = Some sd \<longrightarrow> schemas sd = definitions cm)"
  using assms
  by (auto simp: genSources_def noFiles_def Let_def split: sum.splits option.splits prod.splits)

text \<open>
  Claim C2: when \<open>genSources\<close> has written the check file, the marking of all endpoints has
  completed, and the definitions it wrote have a key \<open>k\<close> exactly when \<open>k\<close> is registered as a
  type declaration whose relevance flag is set after the marking; a name whose flag was not
  set before and that is reached from no parameter type and no return type of any
  endpoint is not a key of the definitions. The document gets the same definitions.
\<close>

theorem definitions_are_the_relevant_types:
  assumes gen: "genSources c n st its = Some (fs, err)" and cf: "checkFile fs = Some cm"
  shows "\<exists>entries st1. itemsLoop c n st its = Some (Inr (entries, st1))
          \<and> (\<forall>k. (map_of (definitions cm) k \<noteq> None) = relevantType st1 k)
          \<and> (\<forall>k. \<not> relevantIn st k \<longrightarrow> (\<forall>item\<in>set its. \<not> endpointReaches st item k)
                 \<longrightarrow> map_of (definitions cm) k = None)
          \<and> (\<forall>sd. swaggerFile fs = Some sd \<longrightarrow> schemas sd = definitions cm)"
proof -
  from genSources_checkFile[OF gen cf] obtain entries st1 st2 where
      l: "itemsLoop c n st its = Some (Inr (entries, st1))"
      and d: "symtabToSchemaDefinitions st1 = (definitions cm, st2)"
      and s: "\<forall>sd. swaggerFile fs = Some sd \<longrightarrow> schemas sd = definitions cm"
    by blast
  from symtabToSchemaDefinitions_keys[OF d]
  have keys: "\<forall>k. (map_of (definitions cm) k \<noteq> None) = relevantType st1 k" by blast
  from itemsLoop_marks[OF l]
  have only: "\<forall>k. relevantIn st1 k \<longrightarrow> relevantIn st k \<or> (\<exists>item\<in>set its. endpointReaches st item k)" by simp
  have "\<forall>k. \<not> relevantIn st k \<longrightarrow> (\<forall>item\<in>set its. \<not> endpointReaches st item k)
                 \<longrightarrow> map_of (definitions cm) k = None"
  proof (intro allI impI)
    fix k assume a: "\<not> relevantIn st k" "\<forall>item\<in>set its. \<not> endpointReaches st item k"
    with only have "\<not> relevantIn st1 k" by blast
    then have "\<not> relevantType st1 k" by (auto simp: relevantType_def relevantIn_def split: option.splits)
    with keys show "map_of (definitions cm) k = None" by blast
  qed
  with l keys s show ?thesis by blast
qed


section \<open>The definitions of a run\<close>

lemma sample_endpoints:
  "endpointsOf (widgetsProgram [] (Some (TypeReference ''Widget'' None)))
   = [sampleEndpoint [] (Some (TypeReference ''Widget'' None))]"
  by code_simp

lemma sample_reaches:
  "reaches (connectedTable (widgetsProgram [] (Some (TypeReference ''Widget'' None)))) (TypeReference ''Widget'' None) x
   = (x = ''Widget'')"
proof -
  let ?T = "connectedTable (widgetsProgram [] (Some (TypeReference ''Widget'' None)))"
  have "map_option memberTypes (map_of ?T ''Widget'') = Some [TokenObject NumberKeyword, TokenObject StringKeyword]"
    by code_simp
  then obtain e where e: "map_of ?T ''Widget'' = Some e"
      "memberTypes e = [TokenObject NumberKeyword, TokenObject StringKeyword]" by auto
  show ?thesis by (simp add: reaches_name_iff[OF e(1)] e(2) reaches_leaf)
qed

text \<open>Claim C2 on the program with the interfaces \<open>Widget\<close> and \<open>Unused\<close> and the method
  \<open>list(): Widget\<close>: \<open>Widget\<close> is a key of the definitions, \<open>Unused\<close> is not.\<close>

theorem definitions_are_the_relevant_types_witness:
  "\<exists>fs err cm.
     genSources sampleCollaborators 5 (connectedTable (widgetsProgram [] (Some (TypeReference ''Widget'' None))))
       (endpointsOf (widgetsProgram [] (Some (TypeReference ''Widget'' None)))) = Some (fs, err)
     \<and> checkFile fs = Some cm
     \<and> (\<exists>entries st1.
           itemsLoop sampleCollaborators 5 (connectedTable (widgetsProgram [] (Some (TypeReference ''Widget'' None))))
             (endpointsOf (widgetsProgram [] (Some (TypeReference ''Widget'' None)))) = Some (Inr (entries, st1))
           \<and> (\<forall>k. (map_of (definitions cm) k \<noteq> None) = relevantType st1 k))
     \<and> \<not> relevantIn (connectedTable (widgetsProgram [] (Some (TypeReference ''Widget'' None)))) ''Unused''
     \<and> (\<forall>item\<in>set (endpointsOf (widgetsProgram [] (Some (TypeReference ''Widget'' None)))).
           \<not> endpointReaches (connectedTable (widgetsProgram [] (Some (TypeReference ''Widget'' None)))) item ''Unused'')
     \<and> map_of (definitions cm) ''Unused'' = None
     \<and> map_of (definitions cm) ''Widget'' \<noteq> None
     \<and> (\<exists>sd. swaggerFile fs = Some sd \<and> schemas sd = definitions cm)"
proof -
  let ?P = "widgetsProgram [] (Some (TypeReference ''Widget'' None))"
  let ?T = "connectedTable ?P"
  let ?I = "endpointsOf ?P"
  let ?G = "genSources sampleCollaborators 5 ?T ?I"
  have "?G \<noteq> None" by code_simp
  then obtain fs err where g: "?G = Some (fs, err)" by auto
  have "checkFile (fst (the ?G)) \<noteq> None" by code_simp
  with g obtain cm where cm: "checkFile fs = Some cm" by auto
  have "swaggerFile (fst (the ?G)) \<noteq> None" by code_simp
  with g obtain sd where sd: "swaggerFile fs = Some sd" by auto
  have nr: "\<not> relevantIn ?T ''Unused''" by code_simp
  have ne: "\<forall>item\<in>set ?I. \<not> endpointReaches ?T item ''Unused''"
    by (simp add: sample_endpoints endpointReaches_def sampleEndpoint_def sample_reaches)
  have w: "map_of (definitions (the (checkFile (fst (the ?G))))) ''Widget'' \<noteq> None" by code_simp
  from definitions_are_the_relevant_types[OF g cm] obtain entries st1 where
      l: "itemsLoop sampleCollaborators 5 ?T ?I = Some (Inr (entries, st1))"
      and k: "\<forall>k. (map_of (definitions cm) k \<noteq> None) = relevantType st1 k"
      and u: "\<forall>k. \<not> relevantIn ?T k \<longrightarrow> (\<forall>item\<in>set ?I. \<not> endpointReaches ?T item k)
                 \<longrightarrow> map_of (definitions cm) k = None"
      and s: "\<forall>sd. swaggerFile fs = Some sd \<longrightarrow> schemas sd = definitions cm"
    by blast
  from u nr ne have "map_of (definitions cm) ''Unused'' = None" by blast
  moreover from w g cm have "map_of (definitions cm) ''Widget'' \<noteq> None" by simp
  moreover from s sd have "\<exists>sd. swaggerFile fs = Some sd \<and> schemas sd = definitions cm" by blast
  ultimately show ?thesis using g cm l k nr ne by blast
qed

section \<open>Two controllers with the same class name\<close>




section \<open>The path of an endpoint in the document and in the route module\<close>

text \<open>
  Claim C5 says that the path of an endpoint in the document ends with the decorator
  argument when there is one, as the path in the route module does. For the method \<open>list\<close>
  decorated \<open>@get("items")\<close> the document has the path \<open>/api/widgets/list\<close>, and the route
  module registers \<open>/items\<close>: \<open>genSwaggerPaths\<close> never reads the decorator arguments.
\<close>

theorem document_path_uses_method_name:
  "documentPaths (generate sampleCollaborators 5
      (widgetsProgram [StringLiteral (quoted ''items'')] (Some (TypeReference ''Widget'' None))))
     = [''/api/widgets/list'']
   \<and> routeHandlers (generate sampleCollaborators 5
      (widgetsProgram [StringLiteral (quoted ''items'')] (Some (TypeReference ''Widget'' None))))
     = [(''Widgets'', StringVal ''items'')]"
  by code_simp

section \<open>The response schema of an endpoint\<close>

text \<open>
  Claim C6 says that the schema of the \<open>200\<close> response is the return type translated with
  references expanded. For the return type \<open>Widget\<close> the document has the reference
  \<open>#/definitions/Widget\<close>; only under \<open>Promise\<close> is the definition of \<open>Widget\<close> written out.
  A response \<open>204\<close> is what \<open>genSwaggerPaths\<close> builds for a method without return type,
  but a run with such a method ends in \<open>parameterListToJSON\<close> before any file is written.
\<close>

theorem return_type_is_not_expanded:
  "responseSchemas (generate sampleCollaborators 5 (widgetsProgram [] (Some (TypeReference ''Widget'' None))))
     = [(''200'', Some (Schema None None None None (Some ''#/definitions/Widget'') None None None None None))]
   \<and> responseSchemas (generate sampleCollaborators 5
        (widgetsProgram [] (Some (TypeReference ''Promise'' (Some [TypeReference ''Widget'' None])))))
     = [(''200'', Some (Schema (Some ''object'') None None None None
                        (Some [(''id'', Schema (Some ''number'') None None None None None None None None None),
                               (''name'', Schema (Some ''string'') None None None None None None None None None)])
                        (Some [''id'', ''name'']) None None None))]
   \<and> responsesOf None = [(''204'', \<lparr> rdescription = ''Successful response'', rschema = None \<rparr>)]
   \<and> generate sampleCollaborators 5 (widgetsProgram [] None)
     = Some \<lparr> written = noFiles, tagTexts = 0, thrown = Some TypeError, logged = [] \<rparr>"
  by code_simp

section \<open>A router with the name of a registered class\<close>

text \<open>
  Claim C8 says that declaring a router under a registered name fails like declaring a
  controller does. \<open>addController\<close> refuses the name \<open>Api\<close> of a registered controller;
  \<open>addRouter\<close> replaces the entry, and a run with a controller and a router of that name
  logs and throws nothing and ends with the router's entry alone.
\<close>

theorem addRouter_overwrites:
  "addController (tableOf [controllerClass ''Api'' ''a.ts'' []]) ''Api'' (Some ''api.ts'') None
     = Inl (MultipleReferences ''Api'')
   \<and> map_option etype (map_of (tableOf [controllerClass ''Api'' ''a.ts'' []]) ''Api'') = Some ControllerEntry
   \<and> (case addRouter (tableOf [controllerClass ''Api'' ''a.ts'' []]) ''Api'' (Some ''api.ts'') None of
        Inl e \<Rightarrow> None
      | Inr t \<Rightarrow> map_option etype (map_of t ''Api'')) = Some RouterEntry
   \<and> map_option logged (generate sampleCollaborators 5 sameNameProgram) = Some []
   \<and> map_option thrown (generate sampleCollaborators 5 sameNameProgram) = Some None
   \<and> map (\<lambda>p. etype (snd p)) (tableOf sameNameProgram) = [RouterEntry]"
  by code_simp

section \<open>Endpoints of a class that is not registered\<close>

lemma parameterListToJSON_names:
  "parameterListToJSON c n st item opts = Some (Inr (x, st')) \<Longrightarrow>
   pclassName x = className item \<and> pmethod x = decorates item"
  by (auto simp: parameterListToJSON_def split: option.splits sum.splits prod.splits)

lemma itemsLoop_keys:
  "itemsLoop c n st its = Some (Inr (entries, st')) \<Longrightarrow>
   map mkey entries = map (\<lambda>i. className i @ ''.'' @ decorates i) its"
proof (induction its arbitrary: st entries)
  case Nil
  then show ?case by simp
next
  case (Cons item its)
  from Cons.prems obtain x st1 rest where
      p: "parameterListToJSON c n st item None = Some (Inr (x, st1))"
      and l: "itemsLoop c n st1 its = Some (Inr (rest, st'))"
      and e: "entries = genMethodEntry (pclassName x) (pmethod x) (parameterNames x)
                          ((pschema x)\<lparr>prequired := Some (parameterNames x)\<rparr>) # rest"
    by (auto split: option.splits sum.splits prod.splits)
  from parameterListToJSON_names[OF p] Cons.IH[OF l] e show ?case
    by (simp add: genMethodEntry_def)
qed

lemma genSources_finished:
  assumes "genSources c n st its = Some (fs, None)"
  shows "\<exists>cm r entries st1. checkFile fs = Some cm \<and> routesFile fs = Some r
           \<and> itemsLoop c n st its = Some (Inr (entries, st1))
           \<and> methodEntries cm = entries \<and> handlers r = map handlerOf its"
  using assms
  by (auto simp: genSources_def genRoutes_def noFiles_def Let_def split: sum.splits option.splits prod.splits)

lemma connectMethods_unattached:
  "connectMethods st eps = Inr st' \<Longrightarrow> map_of st (className ep) = None
   \<Longrightarrow> \<forall>k e ms. map_of st k = Some e \<longrightarrow> emethods e = Some ms \<longrightarrow> ep \<notin> set ms
   \<Longrightarrow> map_of st' (className ep) = None
       \<and> (\<forall>k e ms. map_of st' k = Some e \<longrightarrow> emethods e = Some ms \<longrightarrow> ep \<notin> set ms)"
proof (induction eps arbitrary: st)
  case Nil
  then show ?case by simp
next
  case (Cons x xs)
  show ?case
  proof (cases "map_of st (className x)")
    case None
    with Cons.prems(1) have "connectMethods st xs = Inr st'" by simp
    from Cons.IH[OF this Cons.prems(2,3)] show ?thesis .
  next
    case (Some ctl)
    with Cons.prems(1) obtain ms where ms: "emethods ctl = Some ms"
      by (cases "emethods ctl") auto
    let ?st1 = "AList.update (className x) (ctl\<lparr>emethods := Some (ms @ [x])\<rparr>) st"
    from Cons.prems(1) Some ms have c: "connectMethods ?st1 xs = Inr st'" by simp
    from Some Cons.prems(2) have ne: "className x \<noteq> className ep" by auto
    then have "x \<noteq> ep" by auto
    from ne Cons.prems(2) have u1: "map_of ?st1 (className ep) = None" by (simp add: update_conv')
    have f1: "\<forall>k e ms'. map_of ?st1 k = Some e \<longrightarrow> emethods e = Some ms' \<longrightarrow> ep \<notin> set ms'"
    proof (intro allI impI)
      fix k e ms'
      assume k: "map_of ?st1 k = Some e" and m: "emethods e = Some ms'"
      show "ep \<notin> set ms'"
      proof (cases "k = className x")
        case True
        with k m have "ms' = ms @ [x]" by (auto simp: update_conv')
        moreover from Cons.prems(3) Some ms have "ep \<notin> set ms" by blast
        ultimately show ?thesis using \<open>x \<noteq> ep\<close> by auto
      next
        case False
        with k have "map_of st k = Some e" by (simp add: update_conv')
        with Cons.prems(3) m show ?thesis by blast
      qed
    qed
    from Cons.IH[OF c u1 f1] show ?thesis .
  qed
qed

lemma classDefinitionsLoop_methods:
  "classDefinitionsLoop k ks st = Inr res \<Longrightarrow> ctl \<in> set res \<Longrightarrow>
   \<exists>key e. map_of st key = Some e \<and> methods ctl = emethods e"
proof (induction ks arbitrary: res)
  case Nil
  then show ?case by simp
next
  case (Cons ikey ks)
  show ?case
  proof (cases "map_of st ikey")
    case None
    with Cons show ?thesis by simp
  next
    case (Some e)
    show ?thesis
    proof (cases "etype e = k")
      case False
      with Some Cons show ?thesis by simp
    next
      case True
      with Some Cons.prems(1) obtain c0 rest where
          r: "classDefinitionsLoop k ks st = Inr rest"
          and res: "res = c0 # rest" and mc: "methods c0 = emethods e"
        by (auto split: option.splits sum.splits)
      from Cons.prems(2) res mc have "methods ctl = emethods e \<or> ctl \<in> set rest" by auto
      then show ?thesis
      proof
        assume "methods ctl = emethods e"
        with Some show ?thesis by blast
      next
        assume "ctl \<in> set rest"
        from Cons.IH[OF r this] show ?thesis .
      qed
    qed
  qed
qed




end
